theory Spec2Isabelle
  imports Complex_Main "HOL-Library.Char_ord"
begin

section \<open>The Story Bible store of src/bible.ts\<close>

text \<open>
  A shallow embedding of the local-first project memory (the second source of
  \<^verbatim>\<open>background.ts\<close>, headed \<^verbatim>\<open>src/bible.ts\<close>).

  Conventions of the embedding.
  \<^item> A JavaScript string is a \<open>string\<close>: a list of characters of the code units 0 to 255.
  \<^item> A plain JavaScript object (\<^verbatim>\<open>Record<string, V>\<close>) is the association list of its own
    properties, in the object's own enumeration order, see \<open>obj_set\<close>. A read \<^verbatim>\<open>obj[k]\<close>
    that finds no own property goes on to the prototype, see \<open>js_read\<close>; an assignment
    \<^verbatim>\<open>obj[k] = v\<close> to the key \<^verbatim>\<open>__proto__\<close> may reach the setter of the prototype, see
    \<open>js_write\<close>. \<^verbatim>\<open>Object.prototype\<close> is as the language defines it when an operation
    starts.
  \<^item> A property that code reads with \<^verbatim>\<open>||\<close> or \<^verbatim>\<open>?.\<close> is an \<open>option\<close>; \<open>None\<close> stands for a
    property that is absent or holds \<^verbatim>\<open>undefined\<close>. A property that an object spread
    copies is a \<open>js_prop\<close>, which tells the two apart.
  \<^item> An exception is a value: an operation that can throw returns \<open>Inl\<close> of the error or
    \<open>Inr\<close> of its result. An operation that throws has written nothing.
  \<^item> The storage is the value kept under the one key \<^verbatim>\<open>sl_bible_v1\<close>; every operation
    takes the storage and returns the new one. What is read from the storage and what is
    written to it goes through JSON, see \<open>json_bible\<close>.
  \<^item> \<^verbatim>\<open>Date.now()\<close> is a parameter \<open>now\<close> of every operation that reads the clock.
\<close>

subsection \<open>JavaScript objects as association lists\<close>

type_synonym 'v js_object = "(string \<times> 'v) list"

definition is_digit :: "char \<Rightarrow> bool" where
  "is_digit c = (CHR ''0'' \<le> c \<and> c \<le> CHR ''9'')"

definition is_alpha :: "char \<Rightarrow> bool" where
  "is_alpha c = ((CHR ''A'' \<le> c \<and> c \<le> CHR ''Z'') \<or> (CHR ''a'' \<le> c \<and> c \<le> CHR ''z''))"

definition nat_of_digits :: "string \<Rightarrow> nat" where
  "nat_of_digits s = foldl (\<lambda>n c. 10 * n + (of_char c - 48)) 0 s"

text \<open>
  An array index is the canonical decimal string of an integer below \<open>2^32 - 1\<close>. An
  object enumerates its array-index keys first, in ascending numeric order, and then its
  other string keys in the order of their creation.
\<close>

definition is_array_index :: "string \<Rightarrow> bool" where
  "is_array_index s =
     (s \<noteq> [] \<and> list_all is_digit s \<and> (s = ''0'' \<or> hd s \<noteq> CHR ''0'')
      \<and> nat_of_digits s < 2 ^ 32 - 1)"

text \<open>The own property of a name, if the object has one.\<close>

definition obj_get :: "'v js_object \<Rightarrow> string \<Rightarrow> 'v option" where
  "obj_get obj k = map_of obj k"

definition obj_keys :: "'v js_object \<Rightarrow> string list" where
  "obj_keys obj = map fst obj"

definition obj_values :: "'v js_object \<Rightarrow> 'v list" where
  "obj_values obj = map snd obj"

fun obj_replace :: "string \<Rightarrow> 'v \<Rightarrow> 'v js_object \<Rightarrow> 'v js_object" where
  "obj_replace k v [] = []"
| "obj_replace k v ((k', v') # rest) =
     (if k' = k then (k, v) # rest else (k', v') # obj_replace k v rest)"

fun obj_insert_index :: "string \<Rightarrow> 'v \<Rightarrow> 'v js_object \<Rightarrow> 'v js_object" where
  "obj_insert_index k v [] = [(k, v)]"
| "obj_insert_index k v ((k', v') # rest) =
     (if is_array_index k' \<and> nat_of_digits k' < nat_of_digits k
      then (k', v') # obj_insert_index k v rest
      else (k, v) # (k', v') # rest)"

text \<open>
  An own property \<open>k\<close> gets the value \<open>v\<close>: an existing property keeps its place; a new
  array-index key goes among the array-index keys; any other new key goes last.
\<close>

definition obj_set :: "string \<Rightarrow> 'v \<Rightarrow> 'v js_object \<Rightarrow> 'v js_object" where
  "obj_set k v obj =
     (if k \<in> set (obj_keys obj) then obj_replace k v obj
      else if is_array_index k then obj_insert_index k v obj
      else obj @ [(k, v)])"

text \<open>\<^verbatim>\<open>delete obj[k]\<close>: it removes an own property.\<close>

definition obj_delete :: "string \<Rightarrow> 'v js_object \<Rightarrow> 'v js_object" where
  "obj_delete k obj = filter (\<lambda>kv. fst kv \<noteq> k) obj"

text \<open>
  The names of the properties of \<^verbatim>\<open>Object.prototype\<close>. Every one of them holds a function,
  but \<^verbatim>\<open>__proto__\<close>, an accessor whose getter gives the prototype of the object it is read
  on.
\<close>

definition object_prototype_names :: "string list" where
  "object_prototype_names =
     [''constructor'', ''__defineGetter__'', ''__defineSetter__'', ''hasOwnProperty'',
      ''__lookupGetter__'', ''__lookupSetter__'', ''isPrototypeOf'', ''propertyIsEnumerable'',
      ''toString'', ''valueOf'', ''__proto__'', ''toLocaleString'']"

text \<open>
  The read \<^verbatim>\<open>obj[k]\<close> on an object whose prototype is \<^verbatim>\<open>Object.prototype\<close>: the own
  property, or else what the prototype has under the name, which is a function or the
  prototype itself and so a truthy value that is no record of the store, or else
  \<^verbatim>\<open>undefined\<close>.
\<close>

datatype 'v js_read = Own 'v | Inherited | Missing

definition js_read :: "'v js_object \<Rightarrow> string \<Rightarrow> 'v js_read" where
  "js_read obj k =
     (case obj_get obj k of
        Some v \<Rightarrow> Own v
      | None \<Rightarrow> if k \<in> set object_prototype_names then Inherited else Missing)"

text \<open>
  The assignment \<^verbatim>\<open>obj[k] = v\<close> of an object \<open>v\<close>. With the key \<^verbatim>\<open>__proto__\<close> and no own
  property of that name, the assignment reaches the setter of \<^verbatim>\<open>Object.prototype\<close>: the
  prototype of \<open>obj\<close> changes and no property is made. The store never reads \<open>obj\<close> again
  after such an assignment: it saves \<open>obj\<close>, and that takes the own properties only.
\<close>

definition js_write :: "string \<Rightarrow> 'v \<Rightarrow> 'v js_object \<Rightarrow> 'v js_object" where
  "js_write k v obj =
     (if k = ''__proto__'' \<and> k \<notin> set (obj_keys obj) then obj else obj_set k v obj)"

subsection \<open>Errors\<close>

text \<open>
  The one exception of the store: \<^verbatim>\<open>Object.entries(b.entities)\<close> in \<^verbatim>\<open>pruneBible\<close> on a value
  \<open>b\<close> that has no \<^verbatim>\<open>entities\<close>.
\<close>

datatype js_error = TypeError

text \<open>\<^verbatim>\<open>await\<close> of one call before the next: an exception ends the sequence.\<close>

definition and_then :: "js_error + 'a \<Rightarrow> ('a \<Rightarrow> js_error + 'b) \<Rightarrow> js_error + 'b" where
  "and_then r f = (case r of Inl e \<Rightarrow> Inl e | Inr x \<Rightarrow> f x)"

subsection \<open>Types\<close>

text \<open>
  A number that the store never computes with: the offsets of a span, the time stamps of
  a thread, the ratio of the style. The store passes it on, prints it in the key of
  \<^verbatim>\<open>dedupeEvidence\<close>, and writes it to the storage. A finite number is kept as the text
  that \<^verbatim>\<open>String\<close> gives for it, which is also its JSON text; \<open>NotANumber\<close>, \<open>PlusInfinity\<close>
  and \<open>MinusInfinity\<close> are the three numbers that JSON writes as \<^verbatim>\<open>null\<close>, and \<open>JsonNull\<close>
  is the \<^verbatim>\<open>null\<close> that is read back in their place.
\<close>

datatype printed_number = Finite string | NotANumber | PlusInfinity | MinusInfinity | JsonNull

text \<open>The text of an element in \<^verbatim>\<open>Array.prototype.join\<close>: empty for \<^verbatim>\<open>null\<close>.\<close>

definition join_text :: "printed_number \<Rightarrow> string" where
  "join_text n =
     (case n of
        Finite t \<Rightarrow> t
      | NotANumber \<Rightarrow> ''NaN''
      | PlusInfinity \<Rightarrow> ''Infinity''
      | MinusInfinity \<Rightarrow> ''-Infinity''
      | JsonNull \<Rightarrow> [])"

text \<open>
  A property that an object spread copies: absent, present with the value
  \<^verbatim>\<open>undefined\<close>, or present with a value.
\<close>

datatype 'a js_prop = Absent | Undefined | Value 'a

text \<open>
  \<^verbatim>\<open>Evidence = { span?: [number, number]; quote?: string; chapterId?: string }\<close>.
\<close>

record Evidence =
  span :: "(printed_number \<times> printed_number) option"
  quote :: "string option"
  chapterId :: "string option"

text \<open>
  An attribute value. The declared type is \<^verbatim>\<open>string | string[]\<close>; \<^verbatim>\<open>mergeAttrs\<close> takes
  \<^verbatim>\<open>Record<string, any>\<close> and has branches for \<^verbatim>\<open>null\<close>/\<^verbatim>\<open>undefined\<close> and for other
  values, so the model has them too: \<open>Other s\<close> is a value that is neither a string, an
  array nor null, and whose \<^verbatim>\<open>String(v)\<close> is \<open>s\<close>. The elements of an array are kept as
  the strings \<^verbatim>\<open>String\<close> maps them to.
\<close>

datatype attr_val = Str string | Arr "string list" | Null | Other string

text \<open>
  \<^verbatim>\<open>Entity = { id; type; attrs; evidence }\<close>. The field \<^verbatim>\<open>type\<close> is a string here, as it is
  at run time: \<^verbatim>\<open>normalizeType\<close> exists because a delta's type is any string.
\<close>

record Entity =
  ent_id :: string
  ent_type :: string
  attrs :: "attr_val js_object"
  evidence :: "Evidence list"

text \<open>
  A hook, a number that the store compares with 0 and 1: a finite value, one of the three
  that \<^verbatim>\<open>isFinite\<close> rejects, or the \<^verbatim>\<open>null\<close> that JSON leaves in the place of one of these
  three.
\<close>

datatype js_number = Num real | NaN | PosInfinity | NegInfinity | NullNumber

datatype thread_status = Open | Closed

record Thread =
  name :: string
  status :: "thread_status option"
  thr_notes :: "string js_prop"
  hooks :: "js_number list option"
  todos :: "string list option"
  thr_updatedAt :: "printed_number option"
  thr_createdAt :: "printed_number js_prop"

record Style =
  dialogueRatioTarget :: "printed_number js_prop"
  pacingHint :: "string js_prop"
  voiceTells :: "string list js_prop"

text \<open>
  \<^verbatim>\<open>Bible\<close>. \<open>schemaVersion = None\<close> is a stored record that has no such property, which
  \<^verbatim>\<open>migrate\<close> tests with \<^verbatim>\<open>"schemaVersion" in b\<close>.
\<close>

record Bible =
  projectId :: string
  updatedAt :: nat
  schemaVersion :: "int option"
  entities :: "Entity js_object"
  threads :: "Thread list"
  style :: Style

subsection \<open>Storage and constants\<close>

definition SCHEMA_VERSION :: int where
  "SCHEMA_VERSION = 1"

definition MAX_ENTITIES :: nat where
  "MAX_ENTITIES = 2000"

definition MAX_EVIDENCE_PER_ENTITY :: nat where
  "MAX_EVIDENCE_PER_ENTITY = 20"

definition MAX_THREADS :: nat where
  "MAX_THREADS = 500"

definition MAX_TODOS_PER_THREAD :: nat where
  "MAX_TODOS_PER_THREAD = 40"

text \<open>
  The storage: what is kept under \<^verbatim>\<open>KEY\<close>, if anything; one entry per project.
\<close>

type_synonym storage = "Bible js_object option"

text \<open>
  What JSON keeps of a value. Both back ends of the storage shim keep JSON:
  \<^verbatim>\<open>NaN\<close>, \<^verbatim>\<open>Infinity\<close> and \<^verbatim>\<open>-Infinity\<close> become \<^verbatim>\<open>null\<close>, and a property that holds
  \<^verbatim>\<open>undefined\<close> is dropped. Strings, finite numbers and \<^verbatim>\<open>null\<close> stay as they are, and so
  do the attribute values: the ones the store writes are strings and arrays of strings, or
  came from the storage.
\<close>

definition json_printed :: "printed_number \<Rightarrow> printed_number" where
  "json_printed n = (case n of Finite t \<Rightarrow> Finite t | _ \<Rightarrow> JsonNull)"

definition json_number :: "js_number \<Rightarrow> js_number" where
  "json_number n = (case n of Num r \<Rightarrow> Num r | _ \<Rightarrow> NullNumber)"

definition json_prop :: "('a \<Rightarrow> 'a) \<Rightarrow> 'a js_prop \<Rightarrow> 'a js_prop" where
  "json_prop f p = (case p of Value x \<Rightarrow> Value (f x) | _ \<Rightarrow> Absent)"

definition json_evidence :: "Evidence \<Rightarrow> Evidence" where
  "json_evidence e =
     e\<lparr>span := (case span e of None \<Rightarrow> None
                 | Some ab \<Rightarrow> Some (json_printed (fst ab), json_printed (snd ab)))\<rparr>"

definition json_entity :: "Entity \<Rightarrow> Entity" where
  "json_entity e = e\<lparr>evidence := map json_evidence (evidence e)\<rparr>"

definition json_thread :: "Thread \<Rightarrow> Thread" where
  "json_thread t =
     t\<lparr>thr_notes := json_prop (\<lambda>n. n) (thr_notes t),
       hooks := map_option (map json_number) (hooks t),
       thr_updatedAt := map_option json_printed (thr_updatedAt t),
       thr_createdAt := json_prop json_printed (thr_createdAt t)\<rparr>"

definition json_style :: "Style \<Rightarrow> Style" where
  "json_style st =
     \<lparr>dialogueRatioTarget = json_prop json_printed (dialogueRatioTarget st),
      pacingHint = json_prop (\<lambda>p. p) (pacingHint st),
      voiceTells = json_prop (\<lambda>v. v) (voiceTells st)\<rparr>"

definition json_bible :: "Bible \<Rightarrow> Bible" where
  "json_bible b =
     b\<lparr>entities := map (\<lambda>kv. (fst kv, json_entity (snd kv))) (entities b),
       threads := map json_thread (threads b),
       style := json_style (style b)\<rparr>"

definition json_all :: "Bible js_object \<Rightarrow> Bible js_object" where
  "json_all all = map (\<lambda>kv. (fst kv, json_bible (snd kv))) all"

subsection \<open>Internal helpers\<close>

text \<open>White space that \<^verbatim>\<open>trim\<close> removes, among the code units 0 to 255.\<close>

definition is_space :: "char \<Rightarrow> bool" where
  "is_space c = (c \<in> set [CHR '' '', CHR 0x09, CHR 0x0A, CHR 0x0B, CHR 0x0C, CHR 0x0D, CHR 0xA0])"

definition trim :: "string \<Rightarrow> string" where
  "trim s = rev (dropWhile is_space (rev (dropWhile is_space s)))"

text \<open>
  \<^verbatim>\<open>/^p/i.test(T)\<close> for a literal \<open>p\<close> of lower-case ASCII letters and a colon. The flag
  \<^verbatim>\<open>i\<close> lets a letter of \<open>p\<close> match itself and its ASCII capital, and nothing else: the
  canonical form of a character above 127 is never an ASCII letter.
\<close>

definition ascii_lower :: "char \<Rightarrow> char" where
  "ascii_lower c = (if CHR ''A'' \<le> c \<and> c \<le> CHR ''Z'' then char_of (of_char c + (32::nat)) else c)"

definition starts_with_ci :: "string \<Rightarrow> string \<Rightarrow> bool" where
  "starts_with_ci p T = (map ascii_lower (take (length p) T) = p)"

definition normalizeType :: "string \<Rightarrow> string" where
  "normalizeType t =
     (let T = trim t in
      if T = ''Character'' \<or> T = ''Location'' \<or> T = ''Rule'' \<or> T = ''Object'' \<or> T = ''Concept''
      then T
      else if starts_with_ci ''character:'' T then ''Character''
      else if starts_with_ci ''location:'' T then ''Location''
      else if starts_with_ci ''rule:'' T then ''Rule''
      else if starts_with_ci ''object:'' T then ''Object''
      else ''Concept'')"

text \<open>\<^verbatim>\<open>/^[A-Za-z]+:/.test(id)\<close>.\<close>

definition hasPrefix :: "string \<Rightarrow> bool" where
  "hasPrefix s =
     (takeWhile is_alpha s \<noteq> [] \<and>
      (case dropWhile is_alpha s of [] \<Rightarrow> False | c # _ \<Rightarrow> c = CHR '':''))"

definition ensureIdPrefix :: "string \<Rightarrow> string \<Rightarrow> string" where
  "ensureIdPrefix i ty = (if hasPrefix i then i else ty @ '':'' @ i)"

text \<open>
  \<^verbatim>\<open>Array.from(new Set(arr))\<close>: the first occurrence of every value, in order.
  \<open>uniq_from seen\<close> is the loop with the set built so far.
\<close>

fun uniq_from :: "'a list \<Rightarrow> 'a list \<Rightarrow> 'a list" where
  "uniq_from seen [] = []"
| "uniq_from seen (x # xs) =
     (if x \<in> set seen then uniq_from seen xs else x # uniq_from (x # seen) xs)"

definition uniq :: "'a list \<Rightarrow> 'a list" where
  "uniq arr = uniq_from [] arr"

text \<open>Decimal digits of a natural number: \<^verbatim>\<open>String(n)\<close>.\<close>

fun show_nat :: "nat \<Rightarrow> string" where
  "show_nat n =
     (if n < 10 then [''0123456789'' ! n]
      else show_nat (n div 10) @ [''0123456789'' ! (n mod 10)])"

declare show_nat.simps [simp del]

text \<open>
  The prototype of the object \<open>out\<close> of \<^verbatim>\<open>mergeAttrs\<close>: \<^verbatim>\<open>Object.prototype\<close> at first, and
  an array once \<^verbatim>\<open>out["__proto__"] = [...]\<close> has reached the setter.
\<close>

datatype attrs_prototype = ObjectPrototype | ArrayPrototype "string list"

text \<open>\<^verbatim>\<open>String(f)\<close> of a built-in function of the name \<open>f\<close>, as V8 prints it.\<close>

definition native_text :: "string \<Rightarrow> string" where
  "native_text f = ''function '' @ f @ ''() { [native code] }''"

text \<open>
  What a read finds on \<^verbatim>\<open>Object.prototype\<close>, as an attribute value: the prototype itself
  under \<^verbatim>\<open>__proto__\<close>, the function \<^verbatim>\<open>Object\<close> under \<^verbatim>\<open>constructor\<close>, and a function of the
  same name under every other name.
\<close>

definition object_prototype_attr :: "string \<Rightarrow> attr_val option" where
  "object_prototype_attr k =
     (if k = ''__proto__'' then Some (Other ''[object Object]'')
      else if k = ''constructor'' then Some (Other (native_text ''Object''))
      else if k \<in> set object_prototype_names then Some (Other (native_text k))
      else None)"

text \<open>
  The names of the functions of \<^verbatim>\<open>Array.prototype\<close> (ECMAScript 2023), \<^verbatim>\<open>constructor\<close>
  apart.
\<close>

definition array_prototype_names :: "string list" where
  "array_prototype_names =
     [''at'', ''concat'', ''copyWithin'', ''entries'', ''every'', ''fill'', ''filter'', ''find'',
      ''findIndex'', ''findLast'', ''findLastIndex'', ''flat'', ''flatMap'', ''forEach'',
      ''includes'', ''indexOf'', ''join'', ''keys'', ''lastIndexOf'', ''map'', ''pop'', ''push'',
      ''reduce'', ''reduceRight'', ''reverse'', ''shift'', ''slice'', ''some'', ''sort'',
      ''splice'', ''toLocaleString'', ''toReversed'', ''toSorted'', ''toSpliced'', ''toString'',
      ''unshift'', ''values'', ''with'']"

text \<open>
  What a read of \<^verbatim>\<open>out[k]\<close> finds up the prototype chain. With an array as the prototype,
  the chain is the array (its elements and its length), then \<^verbatim>\<open>Array.prototype\<close>, then
  \<^verbatim>\<open>Object.prototype\<close>, whose getter of \<^verbatim>\<open>__proto__\<close> gives the array.
\<close>

definition inherited_attr :: "attrs_prototype \<Rightarrow> string \<Rightarrow> attr_val option" where
  "inherited_attr p k =
     (case p of
        ObjectPrototype \<Rightarrow> object_prototype_attr k
      | ArrayPrototype xs \<Rightarrow>
          if is_array_index k \<and> nat_of_digits k < length xs then Some (Str (xs ! nat_of_digits k))
          else if k = ''length'' then Some (Other (show_nat (length xs)))
          else if k = ''__proto__'' then Some (Arr xs)
          else if k = ''constructor'' then Some (Other (native_text ''Array''))
          else if k \<in> set array_prototype_names then Some (Other (native_text k))
          else object_prototype_attr k)"

text \<open>The read \<^verbatim>\<open>out[k]\<close>; \<open>None\<close> is \<^verbatim>\<open>undefined\<close>.\<close>

definition attrs_read :: "attrs_prototype \<times> attr_val js_object \<Rightarrow> string \<Rightarrow> attr_val option" where
  "attrs_read out k =
     (case obj_get (snd out) k of Some v \<Rightarrow> Some v | None \<Rightarrow> inherited_attr (fst out) k)"

text \<open>
  The assignment \<^verbatim>\<open>out[k] = x\<close>. An own property is replaced. Without an own property, the
  key \<^verbatim>\<open>__proto__\<close> reaches the setter, which makes an array the new prototype and ignores a
  string; every other key becomes a new own property.
\<close>

definition attrs_assign ::
  "string \<Rightarrow> attr_val \<Rightarrow> attrs_prototype \<times> attr_val js_object \<Rightarrow> attrs_prototype \<times> attr_val js_object" where
  "attrs_assign k x out =
     (if k \<in> set (obj_keys (snd out)) then (fst out, obj_replace k x (snd out))
      else if k = ''__proto__''
      then ((case x of Arr xs \<Rightarrow> ArrayPrototype xs | _ \<Rightarrow> fst out), snd out)
      else (fst out, obj_set k x (snd out)))"

text \<open>One turn of the loop of \<^verbatim>\<open>mergeAttrs\<close> over the entries of \<open>b\<close>.\<close>

definition mergeAttrs_step ::
  "attrs_prototype \<times> attr_val js_object \<Rightarrow> string \<times> attr_val \<Rightarrow> attrs_prototype \<times> attr_val js_object" where
  "mergeAttrs_step out kv =
     (let k = fst kv; v = snd kv; av = attrs_read out k in
      if (case av of Some (Arr _) \<Rightarrow> True | _ \<Rightarrow> False) \<or> (case v of Arr _ \<Rightarrow> True | _ \<Rightarrow> False)
      then
        (let aa = (case av of
                     Some (Arr xs) \<Rightarrow> xs
                   | Some (Str s) \<Rightarrow> [s]
                   | Some (Other s) \<Rightarrow> [s]
                   | Some Null \<Rightarrow> []
                   | None \<Rightarrow> []);
             bb = (case v of Arr ys \<Rightarrow> ys | Str s \<Rightarrow> [s] | Other s \<Rightarrow> [s] | Null \<Rightarrow> [])
         in attrs_assign k (Arr (take 50 (uniq (aa @ bb)))) out)
      else
        (case v of
           Str s \<Rightarrow>
             (case av of
                Some (Str a) \<Rightarrow>
                  if a \<noteq> [] \<and> a \<noteq> s then attrs_assign k (Arr (uniq [a, s])) out
                  else attrs_assign k (Str s) out
              | _ \<Rightarrow> attrs_assign k (Str s) out)
         | Other s \<Rightarrow> attrs_assign k (Str s) out
         | _ \<Rightarrow> out))"

text \<open>
  \<^verbatim>\<open>mergeAttrs\<close>: \<open>out\<close> starts as \<^verbatim>\<open>{ ...a }\<close>, the own properties of \<open>a\<close> in a new object,
  and the result is read by its own properties.
\<close>

definition mergeAttrs :: "attr_val js_object \<Rightarrow> attr_val js_object \<Rightarrow> attr_val js_object" where
  "mergeAttrs a b = snd (foldl mergeAttrs_step (ObjectPrototype, a) b)"

text \<open>The key of \<^verbatim>\<open>dedupeEvidence\<close>: chapter, span and the first 80 characters of the quote.\<close>

definition evidence_key :: "Evidence \<Rightarrow> string" where
  "evidence_key e =
     (case chapterId e of None \<Rightarrow> [] | Some c \<Rightarrow> c) @ ''|''
     @ (case span e of None \<Rightarrow> [] | Some ab \<Rightarrow> join_text (fst ab) @ '','' @ join_text (snd ab)) @ ''|''
     @ take 80 (case quote e of None \<Rightarrow> [] | Some q \<Rightarrow> q)"

text \<open>
  The loop of \<^verbatim>\<open>dedupeEvidence\<close>, with its \<open>seen\<close> set and its \<open>out\<close> array; it leaves
  the loop as soon as \<open>out\<close> holds \<open>MAX_EVIDENCE_PER_ENTITY\<close> entries.
\<close>

fun dedupe_loop :: "string list \<Rightarrow> Evidence list \<Rightarrow> Evidence list \<Rightarrow> Evidence list" where
  "dedupe_loop seen out [] = out"
| "dedupe_loop seen out (e # es) =
     (let k = evidence_key e in
      if k \<notin> set seen then
        (if length (out @ [e]) \<ge> MAX_EVIDENCE_PER_ENTITY then out @ [e]
         else dedupe_loop (k # seen) (out @ [e]) es)
      else dedupe_loop seen out es)"

definition dedupeEvidence :: "Evidence list \<Rightarrow> Evidence list" where
  "dedupeEvidence list = dedupe_loop [] [] list"

text \<open>\<^verbatim>\<open>Number(n)\<close> of a hook: \<^verbatim>\<open>null\<close> becomes 0.\<close>

definition to_number :: "js_number \<Rightarrow> js_number" where
  "to_number n = (case n of NullNumber \<Rightarrow> Num 0 | _ \<Rightarrow> n)"

text \<open>The tests on a number: \<^verbatim>\<open>isFinite(n) && n >= 0 && n <= 1\<close>.\<close>

definition isFinite :: "js_number \<Rightarrow> bool" where
  "isFinite n = (case n of Num _ \<Rightarrow> True | _ \<Rightarrow> False)"

text \<open>\<^verbatim>\<open>n >= 0 && n <= 1\<close>: false for \<open>NaN\<close> and for both infinities.\<close>

definition in_unit :: "js_number \<Rightarrow> bool" where
  "in_unit n = (case n of Num r \<Rightarrow> 0 \<le> r \<and> r \<le> 1 | _ \<Rightarrow> False)"

definition hook_ok :: "js_number \<Rightarrow> bool" where
  "hook_ok n = (isFinite n \<and> in_unit n)"

definition prune_thread :: "Thread \<Rightarrow> Thread" where
  "prune_thread t =
     t\<lparr>todos := Some (take MAX_TODOS_PER_THREAD (case todos t of None \<Rightarrow> [] | Some ts \<Rightarrow> ts)),
       hooks := Some (filter hook_ok (map to_number (case hooks t of None \<Rightarrow> [] | Some hs \<Rightarrow> hs)))\<rparr>"

definition prune_entity :: "Entity \<Rightarrow> Entity" where
  "prune_entity e = e\<lparr>evidence := dedupeEvidence (evidence e)\<rparr>"

text \<open>
  \<^verbatim>\<open>pruneBible\<close>: the first \<open>MAX_ENTITIES\<close> entries of the object; every entity's evidence
  through \<open>dedupeEvidence\<close>; the last \<open>MAX_THREADS\<close> threads; every thread's todos cut
  to \<open>MAX_TODOS_PER_THREAD\<close> and its hooks filtered.
\<close>

definition pruneBible :: "Bible \<Rightarrow> Bible" where
  "pruneBible b =
     (let entries = entities b;
          kept = (if length entries > MAX_ENTITIES then take MAX_ENTITIES entries else entries);
          ents = map (\<lambda>kv. (fst kv, prune_entity (snd kv))) kept;
          ths = (if length (threads b) > MAX_THREADS
                 then drop (length (threads b) - MAX_THREADS) (threads b) else threads b)
      in b\<lparr>entities := ents, threads := map prune_thread ths\<rparr>)"

definition empty_style :: Style where
  "empty_style = \<lparr>dialogueRatioTarget = Absent, pacingHint = Absent, voiceTells = Absent\<rparr>"

text \<open>
  \<^verbatim>\<open>migrate\<close> of \<^verbatim>\<open>undefined\<close> (\<open>None\<close>) and of a record of the store. What it does with
  another truthy value is in \<open>getBible\<close>.
\<close>

definition migrate :: "Bible option \<Rightarrow> string \<Rightarrow> nat \<Rightarrow> Bible" where
  "migrate b pid now =
     (case b of
        None \<Rightarrow>
          \<lparr>projectId = pid, updatedAt = now, schemaVersion = Some SCHEMA_VERSION,
           entities = [], threads = [], style = empty_style\<rparr>
      | Some b0 \<Rightarrow>
          (let b1 = (if schemaVersion b0 = None then b0\<lparr>schemaVersion := Some 1\<rparr> else b0)
           in pruneBible (b1\<lparr>projectId := pid\<rparr>)))"

subsection \<open>Persistence\<close>

definition getAll :: "storage \<Rightarrow> Bible js_object" where
  "getAll s = json_all (case s of None \<Rightarrow> [] | Some all \<Rightarrow> all)"

definition saveAll :: "Bible js_object \<Rightarrow> storage" where
  "saveAll all = Some (json_all all)"

text \<open>The aggregate the storage holds for a project.\<close>

definition stored :: "storage \<Rightarrow> string \<Rightarrow> Bible option" where
  "stored s pid = obj_get (getAll s) pid"

subsection \<open>Public API\<close>

text \<open>
  \<^verbatim>\<open>getBible\<close> returns the aggregate and the storage it leaves.

  For a project that has a record, \<^verbatim>\<open>migrate\<close> changes the record in place and returns
  that same object, so the test \<^verbatim>\<open>all[projectId] !== migrated\<close> is false and nothing is
  saved: the normalised aggregate is only the caller's copy. Without a record, the fresh
  aggregate is saved.

  When the project id is the name of a property of \<^verbatim>\<open>Object.prototype\<close> and no record has
  that name, \<^verbatim>\<open>all[projectId]\<close> is the inherited value. It is truthy, so \<^verbatim>\<open>migrate\<close> takes it
  for a record and hands it to \<^verbatim>\<open>pruneBible\<close>, where \<^verbatim>\<open>Object.entries(b.entities)\<close> throws,
  as the value has no \<^verbatim>\<open>entities\<close>. Nothing is saved. (Before that, \<^verbatim>\<open>migrate\<close> has set
  \<^verbatim>\<open>projectId\<close>, and for \<^verbatim>\<open>__proto__\<close> also \<^verbatim>\<open>schemaVersion\<close>, on the inherited value
  itself, which is not part of the storage.)
\<close>

definition getBible :: "storage \<Rightarrow> string \<Rightarrow> nat \<Rightarrow> js_error + Bible \<times> storage" where
  "getBible s pid now =
     (let all = getAll s in
      case js_read all pid of
        Inherited \<Rightarrow> Inl TypeError
      | Own b0 \<Rightarrow> Inr (migrate (Some b0) pid now, s)
      | Missing \<Rightarrow>
          (let migrated = migrate None pid now
           in Inr (migrated, saveAll (js_write pid migrated all))))"

definition putBible :: "storage \<Rightarrow> Bible \<Rightarrow> nat \<Rightarrow> storage" where
  "putBible s b now =
     saveAll (js_write (projectId b)
                (pruneBible (b\<lparr>updatedAt := now, schemaVersion := Some SCHEMA_VERSION\<rparr>))
                (getAll s))"

text \<open>
  The merge of one delta into the loaded aggregate, shared by \<^verbatim>\<open>upsertEntity\<close> and the
  loop of \<^verbatim>\<open>upsertEntities\<close>. \<open>canonical_type\<close> and \<open>canonical_id\<close> are the two constants
  \<^verbatim>\<open>type\<close> and \<^verbatim>\<open>id\<close> of the source.
\<close>

definition canonical_type :: "Entity \<Rightarrow> string" where
  "canonical_type e =
     normalizeType (if ent_type e \<noteq> [] then ent_type e
                    else takeWhile (\<lambda>c. c \<noteq> CHR '':'') (ent_id e))"

definition canonical_id :: "Entity \<Rightarrow> string" where
  "canonical_id e = ensureIdPrefix (ent_id e) (canonical_type e)"

text \<open>
  \<open>prev\<close> is what \<^verbatim>\<open>b.entities[id]\<close> gave. An inherited value has neither \<^verbatim>\<open>attrs\<close> nor
  \<^verbatim>\<open>evidence\<close>, so \<^verbatim>\<open>prev?.attrs\<close> and \<^verbatim>\<open>prev?.evidence\<close> are \<^verbatim>\<open>undefined\<close> for it as they are
  without a value.
\<close>

definition merge_entity :: "Entity js_read \<Rightarrow> Entity \<Rightarrow> Entity" where
  "merge_entity prev e =
     \<lparr>ent_id = canonical_id e,
      ent_type = canonical_type e,
      attrs = mergeAttrs (case prev of Own p \<Rightarrow> attrs p | _ \<Rightarrow> []) (attrs e),
      evidence = dedupeEvidence ((case prev of Own p \<Rightarrow> evidence p | _ \<Rightarrow> []) @ evidence e)\<rparr>"

definition upsert_into :: "Bible \<Rightarrow> Entity \<Rightarrow> Bible" where
  "upsert_into b e =
     b\<lparr>entities := js_write (canonical_id e)
                     (merge_entity (js_read (entities b) (canonical_id e)) e) (entities b)\<rparr>"

definition upsertEntity :: "storage \<Rightarrow> string \<Rightarrow> Entity \<Rightarrow> nat \<Rightarrow> js_error + storage" where
  "upsertEntity s pid e now =
     and_then (getBible s pid now)
       (\<lambda>bs. Inr (putBible (snd bs) ((upsert_into (fst bs) e)\<lparr>updatedAt := now\<rparr>) now))"

text \<open>
  \<^verbatim>\<open>addEvidence\<close>. \<^verbatim>\<open>cur\<close> is \<^verbatim>\<open>b.entities[id]\<close>. Without a value the call returns right
  after \<^verbatim>\<open>getBible\<close>. With an entity, the entity gets the evidence and the aggregate is
  written. With an inherited value, a function or \<^verbatim>\<open>Object.prototype\<close>, the test \<^verbatim>\<open>!cur\<close> is
  false as well: the evidence is set on that value, which is no part of the aggregate, and
  the aggregate is written as it was loaded.
\<close>

definition addEvidence :: "storage \<Rightarrow> string \<Rightarrow> string \<Rightarrow> Evidence \<Rightarrow> nat \<Rightarrow> js_error + storage" where
  "addEvidence s pid i ev now =
     and_then (getBible s pid now)
       (\<lambda>bs. let b = fst bs; s1 = snd bs in
          case js_read (entities b) i of
            Missing \<Rightarrow> Inr s1
          | Own cur \<Rightarrow>
              Inr (putBible s1
                (b\<lparr>entities := obj_replace i (cur\<lparr>evidence := dedupeEvidence (evidence cur @ [ev])\<rparr>)
                                 (entities b),
                   updatedAt := now\<rparr>) now)
          | Inherited \<Rightarrow> Inr (putBible s1 (b\<lparr>updatedAt := now\<rparr>) now))"

text \<open>\<^verbatim>\<open>upsertEntities\<close>: an empty batch returns before anything is read.\<close>

definition upsertEntities :: "storage \<Rightarrow> string \<Rightarrow> Entity list \<Rightarrow> nat \<Rightarrow> js_error + storage" where
  "upsertEntities s pid es now =
     (if es = [] then Inr s
      else and_then (getBible s pid now)
             (\<lambda>bs. Inr (putBible (snd bs) ((foldl upsert_into (fst bs) es)\<lparr>updatedAt := now\<rparr>) now)))"

text \<open>\<^verbatim>\<open>findIndex\<close>, with \<open>None\<close> for \<open>-1\<close>.\<close>

fun findIndex :: "('a \<Rightarrow> bool) \<Rightarrow> 'a list \<Rightarrow> nat option" where
  "findIndex P [] = None"
| "findIndex P (x # xs) = (if P x then Some 0 else map_option Suc (findIndex P xs))"

text \<open>
  The thread \<^verbatim>\<open>{ name, status: "open", createdAt: now() }\<close> that \<^verbatim>\<open>upsertThread\<close> starts
  from when no thread has the name.
\<close>

definition new_thread :: "string \<Rightarrow> nat \<Rightarrow> Thread" where
  "new_thread nm now =
     \<lparr>name = nm, status = Some Open, thr_notes = Absent, hooks = None, todos = None,
      thr_updatedAt = None, thr_createdAt = Value (Finite (show_nat now))\<rparr>"

text \<open>\<^verbatim>\<open>{ ...base, ...t }\<close> at one property: the one of \<open>t\<close> if \<open>t\<close> has the property.\<close>

definition spread_prop :: "'a js_prop \<Rightarrow> 'a js_prop \<Rightarrow> 'a js_prop" where
  "spread_prop old new = (case new of Absent \<Rightarrow> old | _ \<Rightarrow> new)"

text \<open>
  The constant \<open>merged\<close> of \<^verbatim>\<open>upsertThread\<close>, which is
  \<^verbatim>\<open>{...base, ...t, status, hooks, todos, updatedAt}\<close>: the name, the notes and the creation
  time are the delta's own where it has them, and the delta always has a name here, the
  one it came with (not the trimmed one that the lookup and \<open>base\<close> use).
\<close>

definition merged_thread :: "Thread \<Rightarrow> Thread \<Rightarrow> nat \<Rightarrow> Thread" where
  "merged_thread base t now =
     \<lparr>name = name t,
      status = (case status t of
                  Some st \<Rightarrow> Some st
                | None \<Rightarrow> (case status base of Some st \<Rightarrow> Some st | None \<Rightarrow> Some Open)),
      thr_notes = spread_prop (thr_notes base) (thr_notes t),
      hooks = Some (filter in_unit (map to_number (filter (\<lambda>n. isFinite (to_number n))
                (uniq ((case hooks base of None \<Rightarrow> [] | Some hs \<Rightarrow> hs)
                       @ (case hooks t of None \<Rightarrow> [] | Some hs \<Rightarrow> hs)))))),
      todos = Some (take MAX_TODOS_PER_THREAD
                (uniq ((case todos base of None \<Rightarrow> [] | Some ts \<Rightarrow> ts)
                       @ (case todos t of None \<Rightarrow> [] | Some ts \<Rightarrow> ts)))),
      thr_updatedAt = Some (Finite (show_nat now)),
      thr_createdAt = spread_prop (thr_createdAt base) (thr_createdAt t)\<rparr>"

text \<open>\<^verbatim>\<open>upsertThread\<close>: a delta whose trimmed name is empty changes nothing.\<close>

definition upsertThread :: "storage \<Rightarrow> string \<Rightarrow> Thread \<Rightarrow> nat \<Rightarrow> js_error + storage" where
  "upsertThread s pid t now =
     and_then (getBible s pid now)
       (\<lambda>bs. let b = fst bs; s1 = snd bs; nm = trim (name t) in
          if nm = [] then Inr s1
          else
            (let i = findIndex (\<lambda>x. name x = nm) (threads b);
                 base = (case i of Some j \<Rightarrow> threads b ! j | None \<Rightarrow> new_thread nm now);
                 merged = merged_thread base t now;
                 ths = (case i of
                          Some j \<Rightarrow> (threads b)[j := merged]
                        | None \<Rightarrow> threads b @ [merged])
             in Inr (putBible s1 (b\<lparr>threads := ths, updatedAt := now\<rparr>) now)))"

definition closeThread :: "storage \<Rightarrow> string \<Rightarrow> string \<Rightarrow> nat \<Rightarrow> js_error + storage" where
  "closeThread s pid nm now =
     and_then (getBible s pid now)
       (\<lambda>bs. let b = fst bs; s1 = snd bs in
          case findIndex (\<lambda>x. name x = nm) (threads b) of
            None \<Rightarrow> Inr s1
          | Some i \<Rightarrow>
              Inr (putBible s1
                (b\<lparr>threads := (threads b)
                      [i := (threads b ! i)\<lparr>status := Some Closed,
                                             thr_updatedAt := Some (Finite (show_nat now))\<rparr>]\<rparr>) now))"

text \<open>
  \<^verbatim>\<open>removeEntity\<close>: the test \<^verbatim>\<open>b.entities[id]\<close> is true for an inherited value too; then
  \<^verbatim>\<open>delete\<close> finds no own property and the aggregate is written as it was loaded.
\<close>

definition removeEntity :: "storage \<Rightarrow> string \<Rightarrow> string \<Rightarrow> nat \<Rightarrow> js_error + storage" where
  "removeEntity s pid i now =
     and_then (getBible s pid now)
       (\<lambda>bs. let b = fst bs; s1 = snd bs in
          case js_read (entities b) i of
            Missing \<Rightarrow> Inr s1
          | _ \<Rightarrow> Inr (putBible s1 (b\<lparr>entities := obj_delete i (entities b), updatedAt := now\<rparr>) now))"

definition removeThread :: "storage \<Rightarrow> string \<Rightarrow> string \<Rightarrow> nat \<Rightarrow> js_error + storage" where
  "removeThread s pid nm now =
     and_then (getBible s pid now)
       (\<lambda>bs. let b = fst bs; s1 = snd bs in
          case findIndex (\<lambda>t. name t = nm) (threads b) of
            None \<Rightarrow> Inr s1
          | Some i \<Rightarrow>
              Inr (putBible s1
                (b\<lparr>threads := take i (threads b) @ drop (Suc i) (threads b), updatedAt := now\<rparr>) now))"

text \<open>\<^verbatim>\<open>blob.includes(qq)\<close>.\<close>

fun starts_with :: "string \<Rightarrow> string \<Rightarrow> bool" where
  "starts_with [] s = True"
| "starts_with (c # p) [] = False"
| "starts_with (c # p) (d # s) = (c = d \<and> starts_with p s)"

fun includes_str :: "string \<Rightarrow> string \<Rightarrow> bool" where
  "includes_str [] q = (q = [])"
| "includes_str (c # s) q = (starts_with q (c # s) \<or> includes_str s q)"

fun join_with :: "string \<Rightarrow> string list \<Rightarrow> string" where
  "join_with sep [] = []"
| "join_with sep [x] = x"
| "join_with sep (x # y # ys) = x @ sep @ join_with sep (y # ys)"

record SearchResult =
  sr_entities :: "Entity list"
  sr_threads :: "Thread list"
  sr_style :: Style

text \<open>
  \<^verbatim>\<open>searchBible\<close>. Two functions of the language are parameters: \<open>toLowerCase\<close>, which is
  \<^verbatim>\<open>String.prototype.toLowerCase\<close>, and \<open>stringify\<close>, which is \<^verbatim>\<open>JSON.stringify\<close> on an
  entity's attributes. The result comes with the storage the call leaves.
\<close>

definition searchBible ::
  "(string \<Rightarrow> string) \<Rightarrow> (attr_val js_object \<Rightarrow> string) \<Rightarrow> storage \<Rightarrow> string \<Rightarrow> string \<Rightarrow> nat
     \<Rightarrow> js_error + SearchResult \<times> storage" where
  "searchBible toLowerCase stringify s pid q now =
     and_then (getBible s pid now)
       (\<lambda>bs. let b = fst bs; s1 = snd bs;
                 qq = trim (toLowerCase q);
                 es = filter (\<lambda>e. qq = [] \<or>
                          includes_str (toLowerCase (ent_id e @ '' '' @ ent_type e @ '' ''
                                                      @ stringify (attrs e))) qq)
                        (obj_values (entities b));
                 ts = filter (\<lambda>t. qq = [] \<or>
                          includes_str (toLowerCase (name t @ '' ''
                               @ (case thr_notes t of Value n \<Rightarrow> n | _ \<Rightarrow> [])
                               @ '' '' @ join_with '' '' (case todos t of None \<Rightarrow> [] | Some ts \<Rightarrow> ts))) qq)
                        (threads b)
             in Inr (\<lparr>sr_entities = es, sr_threads = ts, sr_style = style b\<rparr>, s1))"

text \<open>\<^verbatim>\<open>exportBible\<close> returns \<^verbatim>\<open>JSON.parse(JSON.stringify(b))\<close>.\<close>

definition exportBible :: "storage \<Rightarrow> string \<Rightarrow> nat \<Rightarrow> js_error + Bible \<times> storage" where
  "exportBible s pid now =
     and_then (getBible s pid now) (\<lambda>bs. Inr (json_bible (fst bs), snd bs))"

definition listProjectIds :: "storage \<Rightarrow> string list" where
  "listProjectIds s = obj_keys (getAll s)"

definition clearBible :: "storage \<Rightarrow> string \<Rightarrow> storage" where
  "clearBible s pid = saveAll (obj_delete pid (getAll s))"

text \<open>
  \<^verbatim>\<open>importBible\<close> takes a \<^verbatim>\<open>Partial<Bible>\<close>, of which it reads the entities, the threads and
  the style.
\<close>

record Incoming =
  inc_entities :: "Entity js_object option"
  inc_threads :: "Thread list option"
  inc_style :: "Style option"

text \<open>
  The delta that \<^verbatim>\<open>importBible\<close> makes of an entry of the incoming entities: the id is the
  key of the entry.
\<close>

definition import_entity :: "string \<times> Entity \<Rightarrow> Entity" where
  "import_entity ke =
     \<lparr>ent_id = fst ke,
      ent_type = normalizeType (if ent_type (snd ke) \<noteq> [] then ent_type (snd ke)
                                else takeWhile (\<lambda>c. c \<noteq> CHR '':'') (fst ke)),
      attrs = attrs (snd ke),
      evidence = evidence (snd ke)\<rparr>"

text \<open>
  The delta it makes of an incoming thread: \<^verbatim>\<open>notes: t?.notes\<close> is a property of the
  delta whatever the incoming thread has.
\<close>

definition import_thread :: "Thread \<Rightarrow> Thread" where
  "import_thread t =
     \<lparr>name = name t,
      status = Some (if status t = Some Closed then Closed else Open),
      thr_notes = (case thr_notes t of Value n \<Rightarrow> Value n | _ \<Rightarrow> Undefined),
      hooks = Some (case hooks t of None \<Rightarrow> [] | Some hs \<Rightarrow> hs),
      todos = Some (case todos t of None \<Rightarrow> [] | Some ts \<Rightarrow> ts),
      thr_updatedAt = None,
      thr_createdAt = Absent\<rparr>"

text \<open>\<^verbatim>\<open>{ ...(cur.style || {}), ...(incoming.style || {}) }\<close>.\<close>

definition merge_style :: "Style \<Rightarrow> Style option \<Rightarrow> Style" where
  "merge_style cur inc =
     (case inc of
        None \<Rightarrow> cur
      | Some st \<Rightarrow>
          \<lparr>dialogueRatioTarget = spread_prop (dialogueRatioTarget cur) (dialogueRatioTarget st),
           pacingHint = spread_prop (pacingHint cur) (pacingHint st),
           voiceTells = spread_prop (voiceTells cur) (voiceTells st)\<rparr>)"

definition importBible :: "storage \<Rightarrow> string \<Rightarrow> Incoming \<Rightarrow> nat \<Rightarrow> js_error + storage" where
  "importBible s pid inc now =
     and_then (getBible s pid now) (\<lambda>bs.
     and_then (case inc_entities inc of
                 None \<Rightarrow> Inr (snd bs)
               | Some ents \<Rightarrow> upsertEntities (snd bs) pid (map import_entity ents) now) (\<lambda>s2.
     and_then (foldl (\<lambda>r t. and_then r (\<lambda>s'. upsertThread s' pid (import_thread t) now)) (Inr s2)
                 (case inc_threads inc of None \<Rightarrow> [] | Some ts \<Rightarrow> ts)) (\<lambda>s3.
     and_then (getBible s3 pid now) (\<lambda>cs.
       Inr (putBible (snd cs) ((fst cs)\<lparr>style := merge_style (style (fst cs)) (inc_style inc)\<rparr>) now)))))"

text \<open>
  \<^verbatim>\<open>arr.slice(0, n)\<close> for an integer \<open>n\<close>: a negative \<open>n\<close> counts from the end of the
  array. \<^verbatim>\<open>arr.slice(-n)\<close> for \<open>n > 0\<close> is the last \<open>n\<close> elements.
\<close>

definition slice_to :: "int \<Rightarrow> 'a list \<Rightarrow> 'a list" where
  "slice_to n xs = (if n < 0 then take (nat (int (length xs) + n)) xs else take (nat n) xs)"

definition slice_last :: "nat \<Rightarrow> 'a list \<Rightarrow> 'a list" where
  "slice_last n xs = drop (length xs - n) xs"

record SnapshotOpts =
  maxEntities :: "int option"
  maxAttrsPerEntity :: "int option"

record SnapshotEntity =
  se_id :: string
  se_type :: string
  se_attrs :: "attr_val js_object"

record SnapshotThread =
  st_name :: string
  st_status :: "thread_status option"
  st_notes :: "string option"
  st_hooks :: "js_number list"

record Snapshot =
  snap_entities :: "SnapshotEntity list"
  snap_threads :: "SnapshotThread list"
  snap_style :: Style
  snap_updatedAt :: nat

text \<open>
  The object \<open>picked\<close>: \<^verbatim>\<open>for (const k of keys) picked[k] = e.attrs[k]\<close>, where every \<open>k\<close> is
  an own key of the attributes. The result is read by its own properties.
\<close>

definition pick_attrs :: "int \<Rightarrow> attr_val js_object \<Rightarrow> attr_val js_object" where
  "pick_attrs n a =
     snd (foldl (\<lambda>picked k.
                   attrs_assign k (case attrs_read (ObjectPrototype, a) k of None \<Rightarrow> Null | Some v \<Rightarrow> v)
                     picked)
            (ObjectPrototype, []) (slice_to n (obj_keys a)))"

text \<open>
  \<^verbatim>\<open>getSnapshotForLLM\<close>. The options are integers; the sort is stable and puts the
  entities with the most evidence first.
\<close>

definition getSnapshotForLLM ::
  "storage \<Rightarrow> string \<Rightarrow> SnapshotOpts \<Rightarrow> nat \<Rightarrow> js_error + Snapshot \<times> storage" where
  "getSnapshotForLLM s pid opts now =
     (let maxE = (case maxEntities opts of None \<Rightarrow> 60 | Some n \<Rightarrow> n);
          maxA = (case maxAttrsPerEntity opts of None \<Rightarrow> 6 | Some n \<Rightarrow> n)
      in and_then (getBible s pid now)
           (\<lambda>bs. let b = fst bs; s1 = snd bs;
                ents = map (\<lambda>e. \<lparr>se_id = ent_id e, se_type = ent_type e,
                                 se_attrs = pick_attrs maxA (attrs e)\<rparr>)
                         (slice_to maxE
                            (sort_key (\<lambda>e. - int (length (evidence e))) (obj_values (entities b))));
                ths = map (\<lambda>t. \<lparr>st_name = name t, st_status = status t,
                                st_notes = (case thr_notes t of Value n \<Rightarrow> Some n | _ \<Rightarrow> None),
                                st_hooks = slice_to 6 (case hooks t of None \<Rightarrow> [] | Some hs \<Rightarrow> hs)\<rparr>)
                        (slice_last 20 (threads b))
            in Inr (\<lparr>snap_entities = ents, snap_threads = ths, snap_style = style b,
                     snap_updatedAt = updatedAt b\<rparr>, s1)))"

subsection \<open>Auxiliary definitions for the proofs\<close>

text \<open>
  \<open>uniq_by f seen\<close> keeps the first element of every key \<open>f x\<close> that is not in \<open>seen\<close>;
  both \<open>uniq\<close> and the loop of \<open>dedupeEvidence\<close> are instances of it.
\<close>

fun uniq_by :: "('a \<Rightarrow> 'k) \<Rightarrow> 'k list \<Rightarrow> 'a list \<Rightarrow> 'a list" where
  "uniq_by f seen [] = []"
| "uniq_by f seen (x # xs) =
     (if f x \<in> set seen then uniq_by f seen xs else x # uniq_by f (f x # seen) xs)"

text \<open>
  What one turn of \<open>mergeAttrs\<close> assigns to \<open>out[k]\<close>, from the value \<open>av\<close> it finds there
  and the delta's value \<open>v\<close>; \<open>None\<close> when it assigns nothing.
\<close>

definition attr_merge :: "attr_val option \<Rightarrow> attr_val \<Rightarrow> attr_val option" where
  "attr_merge av v =
     (if (case av of Some (Arr _) \<Rightarrow> True | _ \<Rightarrow> False) \<or> (case v of Arr _ \<Rightarrow> True | _ \<Rightarrow> False)
      then
        Some (Arr (take 50 (uniq
          ((case av of Some (Arr xs) \<Rightarrow> xs | Some (Str s) \<Rightarrow> [s] | Some (Other s) \<Rightarrow> [s]
             | Some Null \<Rightarrow> [] | None \<Rightarrow> [])
           @ (case v of Arr ys \<Rightarrow> ys | Str s \<Rightarrow> [s] | Other s \<Rightarrow> [s] | Null \<Rightarrow> [])))))
      else
        (case v of
           Str s \<Rightarrow>
             (case av of
                Some (Str a) \<Rightarrow> if a \<noteq> [] \<and> a \<noteq> s then Some (Arr (uniq [a, s])) else Some (Str s)
              | _ \<Rightarrow> Some (Str s))
         | Other s \<Rightarrow> Some (Str s)
         | _ \<Rightarrow> None))"

text \<open>
  An evidence entry that JSON keeps as it is: no number of its span is \<^verbatim>\<open>NaN\<close>,
  \<^verbatim>\<open>Infinity\<close> or \<^verbatim>\<open>-Infinity\<close>.
\<close>

definition json_safe :: "Evidence \<Rightarrow> bool" where
  "json_safe ev = (json_evidence ev = ev)"

text \<open>
  A project id that \<^verbatim>\<open>getBible\<close> can read: the project has a record, or its id is not the
  name of a property of \<^verbatim>\<open>Object.prototype\<close>.
\<close>

definition readable :: "storage \<Rightarrow> string \<Rightarrow> bool" where
  "readable s pid = (stored s pid \<noteq> None \<or> pid \<notin> set object_prototype_names)"

text \<open>The storage that \<^verbatim>\<open>getBible\<close> leaves for a project id that it can read.\<close>

definition after_get :: "storage \<Rightarrow> string \<Rightarrow> nat \<Rightarrow> storage" where
  "after_get s pid now =
     (case stored s pid of
        None \<Rightarrow> saveAll (obj_set pid (migrate None pid now) (getAll s))
      | Some _ \<Rightarrow> s)"

text \<open>
  What the own properties of the result of \<open>mergeAttrs\<close> have for an entry of the delta:
  a value that a second merge of the entry leaves alone. Without an own property, the
  entry assigned nothing (its value is null) or its key is \<^verbatim>\<open>__proto__\<close>.
\<close>

definition merged_entry :: "attr_val js_object \<Rightarrow> string \<times> attr_val \<Rightarrow> bool" where
  "merged_entry m kv =
     (case obj_get m (fst kv) of
        Some x \<Rightarrow> attr_merge (Some x) (snd kv) = None \<or> attr_merge (Some x) (snd kv) = Some x
      | None \<Rightarrow> fst kv = ''__proto__'' \<or> snd kv = Null)"

text \<open>A read that finds an own property or nothing.\<close>

definition own_read :: "'v option \<Rightarrow> 'v js_read" where
  "own_read x = (case x of None \<Rightarrow> Missing | Some v \<Rightarrow> Own v)"

text \<open>The entities an upsert hands to the storage, from the entities of the aggregate it loaded.\<close>

definition written_entities :: "Entity js_object \<Rightarrow> Entity \<Rightarrow> Entity js_object" where
  "written_entities es e =
     map (\<lambda>kv. (fst kv, prune_entity (snd kv)))
       (take MAX_ENTITIES
          (obj_set (canonical_id e) (merge_entity (own_read (obj_get es (canonical_id e))) e) es))"

text \<open>Entities whose evidence JSON keeps as it is.\<close>

definition json_safe_entities :: "Entity js_object \<Rightarrow> bool" where
  "json_safe_entities es = list_all (\<lambda>kv. list_all json_safe (evidence (snd kv))) es"

text \<open>
  The four ways in which an operation on a project ends: it throws (and has written
  nothing); it returns before it reads anything; it returns with the storage that
  \<open>getBible\<close> left; or it ends with \<open>putBible\<close> of an aggregate of the project, on a
  storage that \<open>getBible\<close> left. The flag \<open>safe\<close> says that JSON keeps the evidence that
  such an aggregate has in its first \<open>MAX_ENTITIES\<close> entities.
\<close>

inductive outcome :: "bool \<Rightarrow> storage \<Rightarrow> string \<Rightarrow> js_error + storage \<Rightarrow> bool" where
  threw: "outcome safe s pid (Inl TypeError)"
| kept: "outcome safe s pid (Inr s)"
| loaded: "outcome safe s pid (Inr (after_get s pid now))"
| wrote: "projectId b = pid \<Longrightarrow> (safe \<Longrightarrow> json_safe_entities (take MAX_ENTITIES (entities b)))
           \<Longrightarrow> outcome safe s pid (Inr (putBible (after_get s0 pid now) b now'))"

subsection \<open>Reading results, and runs of calls\<close>

text \<open>The aggregate a call leaves for a project; none when the call throws.\<close>

definition stored_in :: "js_error + storage \<Rightarrow> string \<Rightarrow> Bible option" where
  "stored_in r pid = (case r of Inl _ \<Rightarrow> None | Inr s \<Rightarrow> stored s pid)"

text \<open>The entity a project's stored aggregate has under an id, if any.\<close>

definition entity_of :: "storage \<Rightarrow> string \<Rightarrow> string \<Rightarrow> Entity option" where
  "entity_of s pid k = (case stored s pid of None \<Rightarrow> None | Some b \<Rightarrow> obj_get (entities b) k)"

definition entity_in :: "js_error + storage \<Rightarrow> string \<Rightarrow> string \<Rightarrow> Entity option" where
  "entity_in r pid k = (case r of Inl _ \<Rightarrow> None | Inr s \<Rightarrow> entity_of s pid k)"

text \<open>A run of upserts, each awaited before the next and each with its own clock reading.\<close>

definition upsert_all :: "storage \<Rightarrow> string \<Rightarrow> (Entity \<times> nat) list \<Rightarrow> js_error + storage" where
  "upsert_all s pid ets =
     foldl (\<lambda>r et. and_then r (\<lambda>s'. upsertEntity s' pid (fst et) (snd et))) (Inr s) ets"

definition upsert_threads :: "storage \<Rightarrow> string \<Rightarrow> (Thread \<times> nat) list \<Rightarrow> js_error + storage" where
  "upsert_threads s pid tts =
     foldl (\<lambda>r tt. and_then r (\<lambda>s'. upsertThread s' pid (fst tt) (snd tt))) (Inr s) tts"

subsection \<open>Concrete inputs\<close>

text \<open>The two deltas of the scenario of the specification.\<close>

definition mercy_quote :: Evidence where
  "mercy_quote = \<lparr>span = None, quote = Some ''I did it for her'', chapterId = None\<rparr>"

definition mercy_first :: Entity where
  "mercy_first =
     \<lparr>ent_id = ''Mercy'', ent_type = ''Character'',
      attrs = [(''motivation'', Str ''guilt'')], evidence = [mercy_quote]\<rparr>"

definition mercy_second :: Entity where
  "mercy_second =
     \<lparr>ent_id = ''Character:Mercy'', ent_type = ''Character'',
      attrs = [(''motivation'', Str ''revenge'')], evidence = [mercy_quote]\<rparr>"

text \<open>The entity the scenario ends with.\<close>

definition mercy_merged :: Entity where
  "mercy_merged =
     \<lparr>ent_id = ''Character:Mercy'', ent_type = ''Character'',
      attrs = [(''motivation'', Arr [''guilt'', ''revenge''])], evidence = [mercy_quote]\<rparr>"

text \<open>
  A delta whose one piece of evidence has a span that starts at \<^verbatim>\<open>NaN\<close>, and the piece as
  the storage keeps it.
\<close>

definition nan_evidence :: Evidence where
  "nan_evidence = \<lparr>span = Some (NotANumber, Finite ''1''), quote = None, chapterId = None\<rparr>"

definition null_evidence :: Evidence where
  "null_evidence = \<lparr>span = Some (JsonNull, Finite ''1''), quote = None, chapterId = None\<rparr>"

definition nan_delta :: Entity where
  "nan_delta =
     \<lparr>ent_id = ''Character:Mercy'', ent_type = ''Character'', attrs = [], evidence = [nan_evidence]\<rparr>"

text \<open>The entities of a project's stored aggregate; none without an aggregate.\<close>

definition entities_of :: "storage \<Rightarrow> string \<Rightarrow> Entity js_object" where
  "entities_of s pid = (case stored s pid of None \<Rightarrow> [] | Some b \<Rightarrow> entities b)"

text \<open>
  The stored entities after an upsert, from the stored entities before it: they are
  loaded through \<open>pruneBible\<close>, the delta is merged in, and the result is written through
  \<open>pruneBible\<close> and JSON.
\<close>

definition upserted_entities :: "Entity js_object \<Rightarrow> Entity \<Rightarrow> Entity js_object" where
  "upserted_entities es e =
     map (\<lambda>kv. (fst kv, json_entity (snd kv)))
       (written_entities (map (\<lambda>kv. (fst kv, prune_entity (snd kv))) (take MAX_ENTITIES es)) e)"

text \<open>A project whose aggregate is full: \<open>MAX_ENTITIES\<close> entities, none of them Mercy.\<close>

definition full_entities :: "Entity js_object" where
  "full_entities =
     map (\<lambda>n. (''Concept:'' @ replicate (Suc n) CHR ''x'',
               \<lparr>ent_id = ''Concept:'' @ replicate (Suc n) CHR ''x'', ent_type = ''Concept'',
                attrs = [], evidence = []\<rparr>)) [0..<2000]"

definition full_store :: storage where
  "full_store =
     Some [(''p1'', \<lparr>projectId = ''p1'', updatedAt = 0, schemaVersion = Some 1,
                    entities = full_entities, threads = [], style = empty_style\<rparr>)]"

text \<open>A delta for Mercy whose motivation is the empty string.\<close>

definition mercy_blank :: Entity where
  "mercy_blank =
     \<lparr>ent_id = ''Character:Mercy'', ent_type = ''Character'',
      attrs = [(''motivation'', Str [])], evidence = []\<rparr>"

text \<open>The threads of a project's stored aggregate, and their names, in order.\<close>

definition threads_of :: "storage \<Rightarrow> string \<Rightarrow> Thread list" where
  "threads_of s pid = (case stored s pid of None \<Rightarrow> [] | Some b \<Rightarrow> threads b)"

definition thread_names_in :: "js_error + storage \<Rightarrow> string \<Rightarrow> string list" where
  "thread_names_in r pid = (case r of Inl _ \<Rightarrow> [] | Inr s \<Rightarrow> map name (threads_of s pid))"

text \<open>
  The stored threads after \<open>upsertThread\<close> of a delta with a name, from the stored threads
  before it.
\<close>

definition upserted_threads :: "Thread list \<Rightarrow> Thread \<Rightarrow> nat \<Rightarrow> Thread list" where
  "upserted_threads ths t now =
     (let loaded = map prune_thread (drop (length ths - MAX_THREADS) ths);
          nm = trim (name t);
          i = findIndex (\<lambda>x. name x = nm) loaded;
          base = (case i of Some j \<Rightarrow> loaded ! j | None \<Rightarrow> new_thread nm now);
          merged = merged_thread base t now;
          new = (case i of Some j \<Rightarrow> loaded[j := merged] | None \<Rightarrow> loaded @ [merged])
      in map json_thread (map prune_thread (drop (length new - MAX_THREADS) new)))"

text \<open>A thread delta whose name starts with a blank.\<close>

definition padded_thread :: Thread where
  "padded_thread =
     \<lparr>name = '' A'', status = None, thr_notes = Absent, hooks = None, todos = None,
      thr_updatedAt = None, thr_createdAt = Absent\<rparr>"

text \<open>A delta whose id has the prefix of one type and whose type is another.\<close>

definition paris_delta :: Entity where
  "paris_delta =
     \<lparr>ent_id = ''Location:Paris'', ent_type = ''Character'', attrs = [], evidence = []\<rparr>"

text \<open>The storage a read leaves; none when the read throws.\<close>

definition storage_after :: "js_error + 'a \<times> storage \<Rightarrow> storage option" where
  "storage_after r = (case r of Inl _ \<Rightarrow> None | Inr x \<Rightarrow> Some (snd x))"

text \<open>A stored record of a schema version that this code does not know.\<close>

definition future_bible :: Bible where
  "future_bible =
     \<lparr>projectId = ''p1'', updatedAt = 0, schemaVersion = Some 2,
      entities = [], threads = [], style = empty_style\<rparr>"

definition future_store :: storage where
  "future_store = Some [(''p1'', future_bible)]"

text \<open>
  Two functions for the parameters of \<open>searchBible\<close> in closed examples: lower case for
  ASCII text, and a text for the attributes. With the empty query the texts are never
  looked at.
\<close>

definition ascii_toLowerCase :: "string \<Rightarrow> string" where
  "ascii_toLowerCase s = map ascii_lower s"

definition keys_text :: "attr_val js_object \<Rightarrow> string" where
  "keys_text a = concat (obj_keys a)"

text \<open>The options left out: the defaults apply.\<close>

definition default_opts :: SnapshotOpts where
  "default_opts = \<lparr>maxEntities = None, maxAttrsPerEntity = None\<rparr>"

text \<open>A second piece of evidence, and the store after the first upsert of the scenario.\<close>

definition other_quote :: Evidence where
  "other_quote = \<lparr>span = None, quote = Some ''She never knew'', chapterId = Some ''c2''\<rparr>"

definition mercy_store :: storage where
  "mercy_store =
     Some [(''p1'', \<lparr>projectId = ''p1'', updatedAt = 1, schemaVersion = Some 1,
                    entities = [(''Character:Mercy'',
                                 \<lparr>ent_id = ''Character:Mercy'', ent_type = ''Character'',
                                  attrs = [(''motivation'', Str ''guilt'')],
                                  evidence = [mercy_quote]\<rparr>)],
                    threads = [], style = empty_style\<rparr>)]"

text \<open>The aggregate of \<open>mercy_store\<close>, and its one entity.\<close>

definition mercy_entity :: Entity where
  "mercy_entity =
     \<lparr>ent_id = ''Character:Mercy'', ent_type = ''Character'',
      attrs = [(''motivation'', Str ''guilt'')], evidence = [mercy_quote]\<rparr>"

definition mercy_bible :: Bible where
  "mercy_bible =
     \<lparr>projectId = ''p1'', updatedAt = 1, schemaVersion = Some 1,
      entities = [(''Character:Mercy'', mercy_entity)], threads = [], style = empty_style\<rparr>"

text \<open>
  What an operation leaves of the schema version of a project: it throws and writes
  nothing, or it leaves the aggregate that was stored before, or it leaves an aggregate of
  the current version.
\<close>

definition version_written :: "storage \<Rightarrow> js_error + storage \<Rightarrow> string \<Rightarrow> bool" where
  "version_written s r pid =
     (case r of
        Inl _ \<Rightarrow> True
      | Inr s' \<Rightarrow> stored s' pid = stored s pid
                 \<or> map_option schemaVersion (stored s' pid) = Some (Some SCHEMA_VERSION))"

text \<open>What a read returns; nothing when it throws.\<close>

definition result_of :: "js_error + 'a \<times> storage \<Rightarrow> 'a option" where
  "result_of r = (case r of Inl _ \<Rightarrow> None | Inr x \<Rightarrow> Some (fst x))"

text \<open>The two bounds of \<open>getSnapshotForLLM\<close> after the defaults are filled in.\<close>

definition snapshot_maxEntities :: "SnapshotOpts \<Rightarrow> int" where
  "snapshot_maxEntities opts = (case maxEntities opts of None \<Rightarrow> 60 | Some n \<Rightarrow> n)"

definition snapshot_maxAttrs :: "SnapshotOpts \<Rightarrow> int" where
  "snapshot_maxAttrs opts = (case maxAttrsPerEntity opts of None \<Rightarrow> 6 | Some n \<Rightarrow> n)"

text \<open>The projection of one thread in the snapshot.\<close>

definition snapshot_thread :: "Thread \<Rightarrow> SnapshotThread" where
  "snapshot_thread t =
     \<lparr>st_name = name t, st_status = status t,
      st_notes = (case thr_notes t of Value n \<Rightarrow> Some n | _ \<Rightarrow> None),
      st_hooks = slice_to 6 (case hooks t of None \<Rightarrow> [] | Some hs \<Rightarrow> hs)\<rparr>"

text \<open>
  A store with two entities, as the upserts of \<open>mercy_first\<close> and \<open>paris_delta\<close> leave it,
  and options with a negative bound.
\<close>

definition paris_entity :: Entity where
  "paris_entity =
     \<lparr>ent_id = ''Location:Paris'', ent_type = ''Character'', attrs = [], evidence = []\<rparr>"

definition two_bible :: Bible where
  "two_bible =
     \<lparr>projectId = ''p1'', updatedAt = 2, schemaVersion = Some 1,
      entities = [(''Character:Mercy'', mercy_entity), (''Location:Paris'', paris_entity)],
      threads = [], style = empty_style\<rparr>"

definition two_store :: storage where
  "two_store = Some [(''p1'', two_bible)]"

definition negative_opts :: SnapshotOpts where
  "negative_opts = \<lparr>maxEntities = Some (- 1), maxAttrsPerEntity = None\<rparr>"








section \<open>Properties\<close>

subsection \<open>Objects\<close>

lemma obj_get_None_iff: "obj_get obj k = None \<longleftrightarrow> k \<notin> set (obj_keys obj)"
  by (simp add: obj_get_def obj_keys_def map_of_eq_None_iff)

lemma obj_keys_replace: "obj_keys (obj_replace k v obj) = obj_keys obj"
  by (induction obj) (auto simp: obj_keys_def)

lemma obj_replace_absent: "k \<notin> fst ` set obj \<Longrightarrow> obj_replace k v obj = obj"
  by (induction obj) auto

lemma map_of_replace_present:
  "k \<in> fst ` set obj \<Longrightarrow> map_of (obj_replace k v obj) k' = (if k' = k then Some v else map_of obj k')"
  by (induction obj) (force split: if_splits)+

lemma map_of_replace:
  "map_of (obj_replace k v obj) k' =
     (if k' = k \<and> k \<in> fst ` set obj then Some v else map_of obj k')"
  by (cases "k \<in> fst ` set obj") (simp_all add: obj_replace_absent map_of_replace_present)

lemma obj_get_replace:
  "obj_get (obj_replace k v obj) k' =
     (if k' = k \<and> k \<in> set (obj_keys obj) then Some v else obj_get obj k')"
  by (simp add: obj_get_def obj_keys_def map_of_replace)

lemma map_of_insert_index:
  "map_of (obj_insert_index k v obj) k' = (if k' = k then Some v else map_of obj k')"
  by (induction obj) auto

lemma obj_get_insert_index:
  "obj_get (obj_insert_index k v obj) k' = (if k' = k then Some v else obj_get obj k')"
  by (simp add: obj_get_def map_of_insert_index)

lemma obj_get_append_new:
  "k \<notin> set (obj_keys obj) \<Longrightarrow>
   obj_get (obj @ [(k, v)]) k' = (if k' = k then Some v else obj_get obj k')"
  by (induction obj) (auto simp: obj_get_def obj_keys_def)

lemma obj_get_set: "obj_get (obj_set k v obj) k' = (if k' = k then Some v else obj_get obj k')"
  by (simp add: obj_set_def obj_get_replace obj_get_insert_index obj_get_append_new)

lemma length_obj_replace: "length (obj_replace k v obj) = length obj"
  by (induction obj) auto

lemma length_obj_insert_index: "length (obj_insert_index k v obj) = Suc (length obj)"
  by (induction obj) auto

lemma length_obj_set:
  "length (obj_set k v obj) = (if k \<in> set (obj_keys obj) then length obj else Suc (length obj))"
  by (simp add: obj_set_def length_obj_replace length_obj_insert_index)

lemma keys_obj_insert_index:
  "set (map fst (obj_insert_index k v obj)) = insert k (set (map fst obj))"
proof (induction obj)
  case Nil
  then show ?case by simp
next
  case (Cons a obj)
  obtain k0 v0 where a: "a = (k0, v0)" by (cases a)
  show ?case
  proof (cases "is_array_index k0 \<and> nat_of_digits k0 < nat_of_digits k")
    case True
    with Cons show ?thesis by (simp add: a insert_commute)
  next
    case False
    then show ?thesis by (auto simp: a)
  qed
qed

lemma keys_obj_set: "set (obj_keys (obj_set k v obj)) = insert k (set (obj_keys obj))"
proof (cases "k \<in> set (obj_keys obj)")
  case True
  then show ?thesis by (auto simp: obj_set_def obj_keys_replace)
next
  case False
  then show ?thesis
    using keys_obj_insert_index [of k v obj] by (auto simp: obj_set_def obj_keys_def)
qed

lemma obj_replace_same: "map_of obj k = Some v \<Longrightarrow> obj_replace k v obj = obj"
  by (induction obj) (auto split: if_splits)

lemma obj_set_same:
  assumes "obj_get obj k = Some v"
  shows "obj_set k v obj = obj"
proof -
  from assms have "k \<in> set (obj_keys obj)"
    using obj_get_None_iff [of obj k] by auto
  with assms show ?thesis by (simp add: obj_set_def obj_replace_same obj_get_def)
qed

subsection \<open>First occurrences\<close>

lemma uniq_by_cong: "set seen = set seen' \<Longrightarrow> uniq_by f seen xs = uniq_by f seen' xs"
proof (induction xs arbitrary: seen seen')
  case Nil
  then show ?case by simp
next
  case (Cons x xs)
  from Cons.prems have "set (f x # seen) = set (f x # seen')" by simp
  from Cons.IH [OF this] Cons.IH [OF Cons.prems] Cons.prems show ?case by simp
qed

lemma uniq_by_not_seen: "x \<in> set (uniq_by f seen xs) \<Longrightarrow> f x \<notin> set seen"
proof (induction xs arbitrary: seen)
  case Nil
  then show ?case by simp
next
  case (Cons y ys)
  show ?case
  proof (cases "f y \<in> set seen")
    case True
    with Cons show ?thesis by simp
  next
    case False
    with Cons.prems have "x = y \<or> x \<in> set (uniq_by f (f y # seen) ys)" by simp
    then show ?thesis
    proof
      assume "x = y"
      with False show ?thesis by simp
    next
      assume "x \<in> set (uniq_by f (f y # seen) ys)"
      from Cons.IH [OF this] show ?thesis by simp
    qed
  qed
qed

lemma uniq_by_subset: "x \<in> set (uniq_by f seen xs) \<Longrightarrow> x \<in> set xs"
  by (induction xs arbitrary: seen) (auto split: if_splits)

lemma uniq_by_distinct: "distinct (map f (uniq_by f seen xs))"
proof (induction xs arbitrary: seen)
  case Nil
  then show ?case by simp
next
  case (Cons x xs)
  have "f x \<notin> f ` set (uniq_by f (f x # seen) xs)"
  proof
    assume "f x \<in> f ` set (uniq_by f (f x # seen) xs)"
    then obtain y where y: "y \<in> set (uniq_by f (f x # seen) xs)" and "f x = f y" by auto
    with uniq_by_not_seen [OF y] show False by simp
  qed
  with Cons show ?case by simp
qed

lemma uniq_by_covers: "x \<in> set xs \<Longrightarrow> f x \<in> set seen \<or> f x \<in> f ` set (uniq_by f seen xs)"
proof (induction xs arbitrary: seen)
  case Nil
  then show ?case by simp
next
  case (Cons y ys)
  show ?case
  proof (cases "x = y")
    case True
    then show ?thesis by simp
  next
    case False
    with Cons.prems have "x \<in> set ys" by simp
    from Cons.IH [OF this, of seen] Cons.IH [OF this, of "f y # seen"]
    show ?thesis by auto
  qed
qed

lemma uniq_by_append:
  "uniq_by f seen (xs @ ys) = uniq_by f seen xs @ uniq_by f (map f xs @ seen) ys"
proof (induction xs arbitrary: seen)
  case Nil
  then show ?case by simp
next
  case (Cons x xs)
  show ?case
  proof (cases "f x \<in> set seen")
    case True
    have "uniq_by f (map f xs @ seen) ys = uniq_by f (f x # map f xs @ seen) ys"
      using True by (intro uniq_by_cong) auto
    with True Cons show ?thesis by simp
  next
    case False
    have "uniq_by f (map f xs @ f x # seen) ys = uniq_by f (f x # map f xs @ seen) ys"
      by (intro uniq_by_cong) auto
    with False Cons show ?thesis by simp
  qed
qed

lemma uniq_by_id:
  "distinct (map f xs) \<Longrightarrow> \<forall>x \<in> set xs. f x \<notin> set seen \<Longrightarrow> uniq_by f seen xs = xs"
proof (induction xs arbitrary: seen)
  case Nil
  then show ?case by simp
next
  case (Cons x xs)
  have "\<forall>y \<in> set xs. f y \<notin> set (f x # seen)"
  proof
    fix y assume y: "y \<in> set xs"
    from Cons.prems(1) have "f x \<notin> f ` set xs" by simp
    with y have "f y \<noteq> f x" by (metis imageI)
    moreover from Cons.prems(2) y have "f y \<notin> set seen" by simp
    ultimately show "f y \<notin> set (f x # seen)" by simp
  qed
  with Cons.IH [of "f x # seen"] Cons.prems show ?case by simp
qed

lemma uniq_by_all_seen: "\<forall>y \<in> set ys. f y \<in> set seen \<Longrightarrow> uniq_by f seen ys = []"
  by (induction ys) auto

lemma uniq_by_take_stable:
  assumes "\<forall>y \<in> set ys. f y \<in> f ` set xs"
  shows "take n (uniq_by f [] (take n (uniq_by f [] xs) @ ys)) = take n (uniq_by f [] xs)"
proof -
  let ?U = "uniq_by f [] xs"
  let ?T = "take n ?U"
  have "distinct (map f ?U)" by (rule uniq_by_distinct)
  then have dT: "distinct (map f ?T)"
    by (metis distinct_take take_map)
  have eq: "uniq_by f [] (?T @ ys) = ?T @ uniq_by f (map f ?T) ys"
    using dT by (simp add: uniq_by_append uniq_by_id)
  show ?thesis
  proof (cases "length ?U \<le> n")
    case True
    then have T: "?T = ?U" by simp
    have "\<forall>y \<in> set ys. f y \<in> set (map f ?U)"
    proof
      fix y assume "y \<in> set ys"
      with assms obtain x where "x \<in> set xs" "f y = f x" by auto
      with uniq_by_covers [of x xs f "[]"] show "f y \<in> set (map f ?U)" by auto
    qed
    then have "uniq_by f (map f ?U) ys = []" by (rule uniq_by_all_seen)
    with eq T show ?thesis by simp
  next
    case False
    then have "length ?T = n" by simp
    with eq show ?thesis by simp
  qed
qed

lemma uniq_from_eq: "uniq_from seen xs = uniq_by (\<lambda>x. x) seen xs"
  by (induction xs arbitrary: seen) auto

lemma uniq_eq: "uniq xs = uniq_by (\<lambda>x. x) [] xs"
  by (simp add: uniq_def uniq_from_eq)

lemma take_uniq_by_idem:
  "take n (uniq_by f [] (take n (uniq_by f [] xs))) = take n (uniq_by f [] xs)"
  using uniq_by_take_stable [of "[]" f xs n] by simp

subsection \<open>dedupeEvidence and pruneBible\<close>

lemma dedupe_loop_eq:
  "length out < MAX_EVIDENCE_PER_ENTITY \<Longrightarrow>
   dedupe_loop seen out es
     = out @ take (MAX_EVIDENCE_PER_ENTITY - length out) (uniq_by evidence_key seen es)"
proof (induction es arbitrary: seen out)
  case Nil
  then show ?case by simp
next
  case (Cons e es)
  show ?case
  proof (cases "evidence_key e \<in> set seen")
    case True
    with Cons show ?thesis by simp
  next
    case notseen: False
    show ?thesis
    proof (cases "MAX_EVIDENCE_PER_ENTITY \<le> Suc (length out)")
      case True
      with Cons.prems have "MAX_EVIDENCE_PER_ENTITY - length out = Suc 0" by simp
      with True notseen show ?thesis by simp
    next
      case False
      then have lt: "length (out @ [e]) < MAX_EVIDENCE_PER_ENTITY" by simp
      from False obtain m where m: "MAX_EVIDENCE_PER_ENTITY - length out = Suc m"
        and m': "MAX_EVIDENCE_PER_ENTITY - Suc (length out) = m"
        by (cases "MAX_EVIDENCE_PER_ENTITY - length out") auto
      from Cons.IH [OF lt, of "evidence_key e # seen"] False notseen
      show ?thesis by (simp add: m m')
    qed
  qed
qed

lemma dedupeEvidence_eq:
  "dedupeEvidence es = take MAX_EVIDENCE_PER_ENTITY (uniq_by evidence_key [] es)"
proof -
  have "length ([]::Evidence list) < MAX_EVIDENCE_PER_ENTITY"
    by (simp add: MAX_EVIDENCE_PER_ENTITY_def)
  from dedupe_loop_eq [OF this] show ?thesis by (simp add: dedupeEvidence_def)
qed

lemma length_dedupeEvidence: "length (dedupeEvidence es) \<le> MAX_EVIDENCE_PER_ENTITY"
  by (simp add: dedupeEvidence_eq)

lemma distinct_dedupeEvidence: "distinct (map evidence_key (dedupeEvidence es))"
proof -
  have "distinct (map evidence_key (uniq_by evidence_key [] es))" by (rule uniq_by_distinct)
  then show ?thesis
    unfolding dedupeEvidence_eq by (metis distinct_take take_map)
qed

lemma dedupeEvidence_idem: "dedupeEvidence (dedupeEvidence es) = dedupeEvidence es"
  by (simp add: dedupeEvidence_eq take_uniq_by_idem)

lemma dedupeEvidence_again:
  "dedupeEvidence (dedupeEvidence (ps @ ds) @ ds) = dedupeEvidence (ps @ ds)"
  unfolding dedupeEvidence_eq by (rule uniq_by_take_stable) simp

lemma dedupeEvidence_fixed:
  assumes "distinct (map evidence_key es)" and "length es \<le> MAX_EVIDENCE_PER_ENTITY"
  shows "dedupeEvidence es = es"
  using assms by (simp add: dedupeEvidence_eq uniq_by_id)

lemma dedupeEvidence_snoc:
  assumes "distinct (map evidence_key es)" and "length es \<le> MAX_EVIDENCE_PER_ENTITY"
  shows "dedupeEvidence (es @ [ev]) =
           (if length es < MAX_EVIDENCE_PER_ENTITY \<and> evidence_key ev \<notin> set (map evidence_key es)
            then es @ [ev] else es)"
  using assms by (auto simp: dedupeEvidence_eq uniq_by_append uniq_by_id)

subsection \<open>What JSON keeps\<close>

lemma json_printed_idem: "json_printed (json_printed n) = json_printed n"
  by (cases n) (simp_all add: json_printed_def)

lemma json_number_idem: "json_number (json_number n) = json_number n"
  by (cases n) (simp_all add: json_number_def)

lemma json_prop_idem: "(\<And>x. f (f x) = f x) \<Longrightarrow> json_prop f (json_prop f p) = json_prop f p"
  by (cases p) (simp_all add: json_prop_def)

lemma json_evidence_idem: "json_evidence (json_evidence e) = json_evidence e"
  by (cases "span e") (simp_all add: json_evidence_def json_printed_idem)

lemma json_entity_idem: "json_entity (json_entity e) = json_entity e"
  by (simp add: json_entity_def json_evidence_idem o_def)

lemma json_thread_idem: "json_thread (json_thread t) = json_thread t"
  by (simp add: json_thread_def json_prop_idem json_printed_idem json_number_idem
      option.map_comp o_def)

lemma json_style_idem: "json_style (json_style st) = json_style st"
  by (simp add: json_style_def json_prop_idem json_printed_idem)

lemma json_bible_idem: "json_bible (json_bible b) = json_bible b"
  by (simp add: json_bible_def json_entity_idem json_thread_idem json_style_idem o_def)

lemma json_all_idem: "json_all (json_all all) = json_all all"
  by (simp add: json_all_def json_bible_idem o_def)

lemma projectId_json_bible: "projectId (json_bible b) = projectId b"
  by (simp add: json_bible_def)

lemma schemaVersion_json_bible: "schemaVersion (json_bible b) = schemaVersion b"
  by (simp add: json_bible_def)

lemma updatedAt_json_bible: "updatedAt (json_bible b) = updatedAt b"
  by (simp add: json_bible_def)

lemma entities_json_bible:
  "entities (json_bible b) = map (\<lambda>kv. (fst kv, json_entity (snd kv))) (entities b)"
  by (simp add: json_bible_def)

lemma threads_json_bible: "threads (json_bible b) = map json_thread (threads b)"
  by (simp add: json_bible_def)

text \<open>A function on the values of an object commutes with the operations on its keys.\<close>

lemma obj_keys_map_values: "obj_keys (map (\<lambda>kv. (fst kv, f (snd kv))) obj) = obj_keys obj"
  by (simp add: obj_keys_def o_def)

lemma obj_get_map_values:
  "obj_get (map (\<lambda>kv. (fst kv, f (snd kv))) obj) k = map_option f (obj_get obj k)"
  by (induction obj) (auto simp: obj_get_def)

lemma obj_replace_map_values:
  "obj_replace k (f v) (map (\<lambda>kv. (fst kv, f (snd kv))) obj)
     = map (\<lambda>kv. (fst kv, f (snd kv))) (obj_replace k v obj)"
  by (induction obj) auto

lemma obj_insert_index_map_values:
  "obj_insert_index k (f v) (map (\<lambda>kv. (fst kv, f (snd kv))) obj)
     = map (\<lambda>kv. (fst kv, f (snd kv))) (obj_insert_index k v obj)"
  by (induction obj) auto

lemma obj_set_map_values:
  "obj_set k (f v) (map (\<lambda>kv. (fst kv, f (snd kv))) obj)
     = map (\<lambda>kv. (fst kv, f (snd kv))) (obj_set k v obj)"
  by (simp add: obj_set_def obj_keys_map_values obj_replace_map_values
      obj_insert_index_map_values)

lemma obj_delete_map_values:
  "obj_delete k (map (\<lambda>kv. (fst kv, f (snd kv))) obj)
     = map (\<lambda>kv. (fst kv, f (snd kv))) (obj_delete k obj)"
  by (induction obj) (auto simp: obj_delete_def)

lemma js_write_map_values:
  "js_write k (f v) (map (\<lambda>kv. (fst kv, f (snd kv))) obj)
     = map (\<lambda>kv. (fst kv, f (snd kv))) (js_write k v obj)"
  by (auto simp: js_write_def obj_keys_map_values obj_set_map_values)

lemma json_all_getAll: "json_all (getAll s) = getAll s"
  by (simp add: getAll_def json_all_idem)

lemma getAll_saveAll: "getAll (saveAll all) = json_all all"
  by (simp add: getAll_def saveAll_def json_all_idem)

lemma obj_get_json_all: "obj_get (json_all all) k = map_option json_bible (obj_get all k)"
  unfolding json_all_def by (rule obj_get_map_values)

lemma obj_keys_json_all: "obj_keys (json_all all) = obj_keys all"
  unfolding json_all_def by (rule obj_keys_map_values)

lemma json_all_js_write:
  "json_all (js_write k v all) = js_write k (json_bible v) (json_all all)"
  unfolding json_all_def by (rule js_write_map_values [symmetric])

lemma json_all_obj_delete: "json_all (obj_delete k all) = obj_delete k (json_all all)"
  unfolding json_all_def by (rule obj_delete_map_values [symmetric])

text \<open>What the storage holds is a JSON value.\<close>

lemma stored_json: "stored s pid = Some b \<Longrightarrow> json_bible b = b"
proof -
  assume "stored s pid = Some b"
  then have "obj_get (json_all (getAll s)) pid = Some b" by (simp add: stored_def json_all_getAll)
  then obtain b0 where "b = json_bible b0" by (auto simp: obj_get_json_all)
  then show ?thesis by (simp add: json_bible_idem)
qed

subsection \<open>pruneBible\<close>

lemma prune_entity_idem: "prune_entity (prune_entity e) = prune_entity e"
  by (simp add: prune_entity_def dedupeEvidence_idem)

lemma hook_ok_to_number: "hook_ok n \<Longrightarrow> to_number n = n"
  by (cases n) (simp_all add: hook_ok_def isFinite_def to_number_def)

lemma hook_ok_json_number: "hook_ok n \<Longrightarrow> json_number n = n"
  by (cases n) (simp_all add: hook_ok_def isFinite_def json_number_def)

lemma map_to_number_hooks: "map to_number (filter hook_ok hs) = filter hook_ok hs"
  by (induction hs) (simp_all add: hook_ok_to_number)

lemma map_json_number_hooks: "map json_number (filter hook_ok hs) = filter hook_ok hs"
  by (induction hs) (simp_all add: hook_ok_json_number)

lemma prune_thread_idem: "prune_thread (prune_thread t) = prune_thread t"
  by (simp add: prune_thread_def map_to_number_hooks)

lemma pruneBible_idem: "pruneBible (pruneBible b) = pruneBible b"
  by (simp add: pruneBible_def Let_def prune_entity_idem prune_thread_idem o_def)

lemma projectId_pruneBible: "projectId (pruneBible b) = projectId b"
  by (simp add: pruneBible_def Let_def)

lemma schemaVersion_pruneBible: "schemaVersion (pruneBible b) = schemaVersion b"
  by (simp add: pruneBible_def Let_def)

lemma updatedAt_pruneBible: "updatedAt (pruneBible b) = updatedAt b"
  by (simp add: pruneBible_def Let_def)

lemma style_pruneBible: "style (pruneBible b) = style b"
  by (simp add: pruneBible_def Let_def)

lemma entities_pruneBible:
  "entities (pruneBible b) = map (\<lambda>kv. (fst kv, prune_entity (snd kv))) (take MAX_ENTITIES (entities b))"
  by (simp add: pruneBible_def Let_def)

lemma threads_pruneBible:
  "threads (pruneBible b) = map prune_thread (drop (length (threads b) - MAX_THREADS) (threads b))"
  by (simp add: pruneBible_def Let_def)

lemma pruneBible_update_irrelevant:
  "pruneBible (b\<lparr>updatedAt := t, schemaVersion := v\<rparr>) = (pruneBible b)\<lparr>updatedAt := t, schemaVersion := v\<rparr>"
  by (simp add: pruneBible_def Let_def)

subsection \<open>pruneBible and JSON\<close>

lemma set_dedupeEvidence: "set (dedupeEvidence es) \<subseteq> set es"
proof
  fix x assume "x \<in> set (dedupeEvidence es)"
  then have "x \<in> set (uniq_by evidence_key [] es)"
    unfolding dedupeEvidence_eq by (rule in_set_takeD)
  then show "x \<in> set es" by (rule uniq_by_subset)
qed

lemma json_dedupeEvidence:
  assumes "list_all json_safe es"
  shows "map json_evidence (dedupeEvidence es) = dedupeEvidence es"
proof (rule map_idI)
  fix x assume "x \<in> set (dedupeEvidence es)"
  with set_dedupeEvidence have "x \<in> set es" by blast
  with assms show "json_evidence x = x" by (simp add: list_all_iff json_safe_def)
qed

lemma json_safe_dedupeEvidence: "list_all json_safe es \<Longrightarrow> list_all json_safe (dedupeEvidence es)"
  using set_dedupeEvidence [of es] by (auto simp: list_all_iff)

lemma json_safe_json_evidence: "json_safe (json_evidence e)"
  by (simp add: json_safe_def json_evidence_idem)

lemma json_entity_fixed_iff: "json_entity e = e \<longleftrightarrow> list_all json_safe (evidence e)"
proof
  assume "json_entity e = e"
  then have "evidence (json_entity e) = evidence e" by simp
  then have "map json_evidence (evidence e) = evidence e" by (simp add: json_entity_def)
  then show "list_all json_safe (evidence e)"
    by (simp add: list_all_iff json_safe_def map_eq_conv [where g = "\<lambda>x. x", simplified])
next
  assume "list_all json_safe (evidence e)"
  then have "map json_evidence (evidence e) = evidence e"
    by (intro map_idI) (simp add: list_all_iff json_safe_def)
  then show "json_entity e = e" by (simp add: json_entity_def)
qed

lemma json_prune_entity:
  "json_entity e = e \<Longrightarrow> json_entity (prune_entity e) = prune_entity e"
  by (simp add: json_entity_fixed_iff prune_entity_def json_safe_dedupeEvidence)

lemma json_prune_thread:
  assumes "json_thread t = t"
  shows "json_thread (prune_thread t) = prune_thread t"
proof -
  from assms have n: "json_prop (\<lambda>n. n) (thr_notes t) = thr_notes t"
    and u: "map_option json_printed (thr_updatedAt t) = thr_updatedAt t"
    and c: "json_prop json_printed (thr_createdAt t) = thr_createdAt t"
    by (auto simp: json_thread_def dest: arg_cong [where f = thr_notes]
        arg_cong [where f = thr_updatedAt] arg_cong [where f = thr_createdAt])
  show ?thesis
    by (simp add: json_thread_def prune_thread_def map_json_number_hooks n u c)
qed

lemma json_pruneBible:
  assumes "json_bible b = b"
  shows "json_bible (pruneBible b) = pruneBible b"
proof -
  from assms have "entities (json_bible b) = entities b" and "threads (json_bible b) = threads b"
    and st: "style (json_bible b) = style b"
    by simp_all
  then have e: "\<forall>kv \<in> set (entities b). json_entity (snd kv) = snd kv"
    and t: "\<forall>t \<in> set (threads b). json_thread t = t"
    by (auto simp: json_bible_def map_eq_conv [where g = "\<lambda>x. x", simplified]
        dest: prod_eqI [rotated] intro: prod_eqI)
  have e': "map (\<lambda>kv. (fst kv, json_entity (snd kv))) (entities (pruneBible b)) = entities (pruneBible b)"
  proof (rule map_idI)
    fix kv assume "kv \<in> set (entities (pruneBible b))"
    then obtain kv0 where kv0: "kv0 \<in> set (entities b)" and kv: "kv = (fst kv0, prune_entity (snd kv0))"
      by (auto simp: entities_pruneBible dest: in_set_takeD)
    from e kv0 have "json_entity (snd kv0) = snd kv0" by simp
    then show "(fst kv, json_entity (snd kv)) = kv" by (simp add: kv json_prune_entity)
  qed
  have t': "map json_thread (threads (pruneBible b)) = threads (pruneBible b)"
  proof (rule map_idI)
    fix x assume "x \<in> set (threads (pruneBible b))"
    then obtain t0 where t0: "t0 \<in> set (threads b)" and x: "x = prune_thread t0"
      by (auto simp: threads_pruneBible dest: in_set_dropD)
    from t t0 have "json_thread t0 = t0" by simp
    then show "json_thread x = x" by (simp add: x json_prune_thread)
  qed
  from st have st': "json_style (style (pruneBible b)) = style (pruneBible b)"
    by (simp add: style_pruneBible json_bible_def)
  show ?thesis
    using e' t' st' by (simp add: json_bible_def)
qed

subsection \<open>Loading and writing\<close>

lemma projectId_migrate: "projectId (migrate x pid now) = pid"
  by (cases x) (simp_all add: migrate_def Let_def projectId_pruneBible)

lemma pruneBible_migrate: "pruneBible (migrate x pid now) = migrate x pid now"
  by (cases x) (simp_all add: migrate_def Let_def pruneBible_idem, simp add: pruneBible_def Let_def)

lemma json_empty_style: "json_style empty_style = empty_style"
  by (simp add: json_style_def empty_style_def json_prop_def)

lemma json_migrate_None: "json_bible (migrate None pid now) = migrate None pid now"
  by (simp add: migrate_def json_bible_def json_empty_style)

lemma json_migrate_Some:
  assumes "json_bible b0 = b0"
  shows "json_bible (migrate (Some b0) pid now) = migrate (Some b0) pid now"
proof -
  let ?b1 = "(if schemaVersion b0 = None then b0\<lparr>schemaVersion := Some 1\<rparr> else b0)\<lparr>projectId := pid\<rparr>"
  from assms have "entities (json_bible b0) = entities b0" "threads (json_bible b0) = threads b0"
    "style (json_bible b0) = style b0" by simp_all
  then have "json_bible ?b1 = ?b1" by (simp add: json_bible_def)
  then have "json_bible (pruneBible ?b1) = pruneBible ?b1" by (rule json_pruneBible)
  then show ?thesis by (simp add: migrate_def Let_def)
qed

lemma json_migrate_stored:
  "json_bible (migrate (stored s pid) pid now) = migrate (stored s pid) pid now"
proof (cases "stored s pid")
  case None
  then show ?thesis by (simp add: json_migrate_None)
next
  case (Some b0)
  from stored_json [OF Some] show ?thesis unfolding Some by (rule json_migrate_Some)
qed

lemma hasPrefix_object_prototype_names: "k \<in> set object_prototype_names \<Longrightarrow> \<not> hasPrefix k"
  by (auto simp: object_prototype_names_def hasPrefix_def is_alpha_def)

lemma proto_in_names: "''__proto__'' \<in> set object_prototype_names"
  by (simp add: object_prototype_names_def)

lemma js_read_stored:
  "js_read (getAll s) pid =
     (case stored s pid of
        Some b0 \<Rightarrow> Own b0
      | None \<Rightarrow> if pid \<in> set object_prototype_names then Inherited else Missing)"
  by (simp add: js_read_def stored_def)

lemma js_write_plain: "k \<notin> set object_prototype_names \<Longrightarrow> js_write k v obj = obj_set k v obj"
  using proto_in_names by (auto simp: js_write_def)

lemma js_write_own: "obj_get obj k \<noteq> None \<Longrightarrow> js_write k v obj = obj_set k v obj"
  by (auto simp: js_write_def obj_get_None_iff)

lemma getBible_readable:
  assumes "readable s pid"
  shows "getBible s pid now = Inr (migrate (stored s pid) pid now, after_get s pid now)"
proof (cases "stored s pid")
  case None
  with assms have "pid \<notin> set object_prototype_names" by (simp add: readable_def)
  with None show ?thesis
    by (simp add: getBible_def js_read_stored after_get_def Let_def js_write_plain)
next
  case (Some b0)
  then show ?thesis by (simp add: getBible_def js_read_stored after_get_def Let_def)
qed

lemma getBible_unreadable: "\<not> readable s pid \<Longrightarrow> getBible s pid now = Inl TypeError"
  by (simp add: getBible_def js_read_stored readable_def Let_def split: option.splits)

lemma getBible_Inr_iff: "(\<exists>r. getBible s pid now = Inr r) \<longleftrightarrow> readable s pid"
  by (cases "readable s pid") (simp_all add: getBible_readable getBible_unreadable)

lemma stored_saveAll_set:
  "stored (saveAll (obj_set k v all)) k' = (if k' = k then Some (json_bible v) else map_option json_bible (obj_get all k'))"
  by (simp add: stored_def getAll_saveAll json_all_def obj_set_map_values [symmetric]
      obj_get_set obj_get_map_values)

lemma stored_getAll_json: "map_option json_bible (obj_get (getAll s) k) = stored s k"
proof -
  have "obj_get (json_all (getAll s)) k = stored s k" by (simp add: stored_def json_all_getAll)
  then show ?thesis by (simp add: obj_get_json_all)
qed

lemma stored_after_get:
  "stored (after_get s pid now) pid' =
     (if pid' = pid then Some (case stored s pid of None \<Rightarrow> migrate None pid now | Some b0 \<Rightarrow> b0)
      else stored s pid')"
  by (cases "stored s pid")
    (auto simp: after_get_def stored_saveAll_set json_migrate_None stored_getAll_json)

lemma readable_after_get: "readable (after_get s pid now) pid"
  by (simp add: readable_def stored_after_get)

lemma stored_putBible:
  assumes "projectId b \<noteq> ''__proto__'' \<or> stored s (projectId b) \<noteq> None"
  shows "stored (putBible s b now) (projectId b)
     = Some (json_bible (pruneBible (b\<lparr>updatedAt := now, schemaVersion := Some SCHEMA_VERSION\<rparr>)))"
proof -
  let ?w = "pruneBible (b\<lparr>updatedAt := now, schemaVersion := Some SCHEMA_VERSION\<rparr>)"
  from assms have "js_write (projectId b) ?w (getAll s) = obj_set (projectId b) ?w (getAll s)"
    by (auto simp: js_write_def stored_def obj_get_None_iff)
  then show ?thesis by (simp add: putBible_def stored_saveAll_set)
qed

lemma stored_putBible_other:
  "pid \<noteq> projectId b \<Longrightarrow> stored (putBible s b now) pid = stored s pid"
proof (cases "projectId b = ''__proto__'' \<and> projectId b \<notin> set (obj_keys (getAll s))")
  case True
  then have "putBible s b now = saveAll (getAll s)" by (auto simp: putBible_def js_write_def)
  then show ?thesis by (simp add: stored_def getAll_saveAll json_all_getAll)
next
  case False
  assume "pid \<noteq> projectId b"
  with False show ?thesis
    by (auto simp: putBible_def js_write_def stored_saveAll_set stored_getAll_json)
qed

text \<open>
  A write under the project id \<^verbatim>\<open>__proto__\<close>, when no record has that name, stores
  nothing.
\<close>

lemma stored_putBible_proto:
  assumes "projectId b = ''__proto__''" and "stored s ''__proto__'' = None"
  shows "stored (putBible s b now) pid = stored s pid"
proof -
  from assms have "''__proto__'' \<notin> set (obj_keys (getAll s))"
    by (simp add: stored_def obj_get_None_iff)
  with assms show ?thesis
    by (simp add: putBible_def js_write_def stored_def [of _ pid] getAll_saveAll json_all_getAll)
qed

lemma upsertEntity_readable:
  assumes "readable s pid"
  shows "upsertEntity s pid e now =
           Inr (putBible (after_get s pid now)
                  ((upsert_into (migrate (stored s pid) pid now) e)\<lparr>updatedAt := now\<rparr>) now)"
  by (simp add: upsertEntity_def getBible_readable [OF assms] and_then_def)

lemma upsertEntity_unreadable: "\<not> readable s pid \<Longrightarrow> upsertEntity s pid e now = Inl TypeError"
  by (simp add: upsertEntity_def getBible_unreadable and_then_def)

lemma projectId_upsert_into: "projectId (upsert_into b e) = projectId b"
  by (simp add: upsert_into_def)

lemma stored_put_after_get:
  assumes "projectId b = pid"
  shows "stored (putBible (after_get s pid now) b now') pid
     = Some (json_bible (pruneBible (b\<lparr>updatedAt := now', schemaVersion := Some SCHEMA_VERSION\<rparr>)))"
proof -
  have "projectId b \<noteq> ''__proto__'' \<or> stored (after_get s pid now) (projectId b) \<noteq> None"
    by (simp add: assms stored_after_get)
  from stored_putBible [OF this, of now'] show ?thesis
    by (simp only: assms)
qed

lemma stored_put_after_get_other:
  assumes "projectId b = pid" and "pid' \<noteq> pid"
  shows "stored (putBible (after_get s pid now) b now') pid' = stored s pid'"
  using assms by (simp add: stored_putBible_other stored_after_get)

text \<open>What the store has written is read back as it is, if JSON keeps its evidence.\<close>

lemma prune_json_prune_thread:
  "prune_thread (json_thread (prune_thread t)) = json_thread (prune_thread t)"
  by (simp add: json_thread_def prune_thread_def map_json_number_hooks map_to_number_hooks)

lemma prune_written:
  assumes "\<forall>kv \<in> set (take MAX_ENTITIES (entities b)). list_all json_safe (evidence (snd kv))"
  shows "pruneBible (json_bible (pruneBible b)) = json_bible (pruneBible b)"
proof -
  let ?w = "json_bible (pruneBible b)"
  have len: "length (entities ?w) \<le> MAX_ENTITIES" "length (threads ?w) \<le> MAX_THREADS"
    by (simp_all add: entities_json_bible entities_pruneBible threads_json_bible threads_pruneBible)
  have e: "map (\<lambda>kv. (fst kv, prune_entity (snd kv))) (entities ?w) = entities ?w"
  proof (rule map_idI)
    fix kv assume "kv \<in> set (entities ?w)"
    then obtain kv0 where kv0: "kv0 \<in> set (take MAX_ENTITIES (entities b))"
      and kv: "kv = (fst kv0, json_entity (prune_entity (snd kv0)))"
      by (auto simp: entities_json_bible entities_pruneBible)
    from assms kv0 have "list_all json_safe (evidence (snd kv0))" by simp
    then have "json_entity (snd kv0) = snd kv0" by (simp add: json_entity_fixed_iff)
    then have "json_entity (prune_entity (snd kv0)) = prune_entity (snd kv0)"
      by (rule json_prune_entity)
    then show "(fst kv, prune_entity (snd kv)) = kv" by (simp add: kv prune_entity_idem)
  qed
  have t: "map prune_thread (threads ?w) = threads ?w"
    by (rule map_idI) (auto simp: threads_json_bible threads_pruneBible prune_json_prune_thread)
  from len e t show ?thesis by (simp add: pruneBible_def Let_def)
qed

subsection \<open>mergeAttrs\<close>

lemma mergeAttrs_step_eq:
  "mergeAttrs_step out (k, v) =
     (case attr_merge (attrs_read out k) v of None \<Rightarrow> out | Some x \<Rightarrow> attrs_assign k x out)"
  by (simp add: mergeAttrs_step_def attr_merge_def Let_def split: attr_val.splits option.splits)

lemma uniq_take_again:
  "take n (uniq (take n (uniq (xs @ ys)) @ ys)) = take n (uniq (xs @ ys))"
  unfolding uniq_eq by (rule uniq_by_take_stable) simp

lemma attr_merge_stable:
  assumes "attr_merge av v = Some x"
  shows "attr_merge (Some x) v = Some x"
proof (cases "(case av of Some (Arr _) \<Rightarrow> True | _ \<Rightarrow> False) \<or> (case v of Arr _ \<Rightarrow> True | _ \<Rightarrow> False)")
  case True
  with assms obtain aa where x: "x = Arr (take 50 (uniq (aa @
      (case v of Arr ys \<Rightarrow> ys | Str s \<Rightarrow> [s] | Other s \<Rightarrow> [s] | Null \<Rightarrow> []))))"
    by (auto simp: attr_merge_def)
  show ?thesis by (simp add: x attr_merge_def uniq_take_again)
next
  case False
  with assms show ?thesis
    by (auto simp: attr_merge_def uniq_def split: attr_val.splits option.splits if_splits)
qed

lemma attr_merge_None: "attr_merge av v = None \<Longrightarrow> v = Null"
  by (auto simp: attr_merge_def split: attr_val.splits option.splits if_splits)

lemma inherited_attr_not_array:
  "k \<noteq> ''__proto__'' \<Longrightarrow> (case inherited_attr p k of Some (Arr _) \<Rightarrow> False | _ \<Rightarrow> True)"
  by (cases p) (auto simp: inherited_attr_def object_prototype_attr_def)

lemma attr_merge_inherited_Null:
  assumes "k \<noteq> ''__proto__''"
  shows "attr_merge (inherited_attr p k) Null = None"
  using inherited_attr_not_array [OF assms, of p]
  by (auto simp: attr_merge_def split: option.splits attr_val.splits)

lemma attrs_read_own: "obj_get (snd out) k = Some x \<Longrightarrow> attrs_read out k = Some x"
  by (simp add: attrs_read_def)

lemma attrs_read_inherited: "obj_get (snd out) k = None \<Longrightarrow> attrs_read out k = inherited_attr (fst out) k"
  by (simp add: attrs_read_def)

lemma obj_get_attrs_assign:
  "obj_get (snd (attrs_assign k x out)) k' =
     (if k' = k \<and> (k \<in> set (obj_keys (snd out)) \<or> k \<noteq> ''__proto__'') then Some x
      else obj_get (snd out) k')"
  by (auto simp: attrs_assign_def obj_get_replace obj_get_set)

lemma mergeAttrs_step_other:
  "k' \<noteq> fst kv \<Longrightarrow> obj_get (snd (mergeAttrs_step out kv)) k' = obj_get (snd out) k'"
  by (cases kv) (simp add: mergeAttrs_step_eq obj_get_attrs_assign split: option.splits)

lemma mergeAttrs_get_other:
  "k' \<notin> fst ` set d \<Longrightarrow> obj_get (snd (foldl mergeAttrs_step out d)) k' = obj_get (snd out) k'"
  by (induction d arbitrary: out) (simp_all add: mergeAttrs_step_other)

lemma merged_entry_cong:
  "obj_get m (fst kv) = obj_get m' (fst kv) \<Longrightarrow> merged_entry m kv = merged_entry m' kv"
  by (simp add: merged_entry_def)

lemma mergeAttrs_step_establishes: "merged_entry (snd (mergeAttrs_step out (k, v))) (k, v)"
proof (cases "obj_get (snd out) k")
  case None
  then have notin: "k \<notin> set (obj_keys (snd out))" by (simp add: obj_get_None_iff)
  show ?thesis
  proof (cases "attr_merge (attrs_read out k) v")
    case n: None
    then have "v = Null" by (rule attr_merge_None)
    with n None show ?thesis by (simp add: mergeAttrs_step_eq merged_entry_def)
  next
    case (Some x)
    then have "attr_merge (Some x) v = Some x" by (rule attr_merge_stable)
    with Some None notin show ?thesis
      by (cases "k = ''__proto__''")
        (simp_all add: mergeAttrs_step_eq merged_entry_def obj_get_attrs_assign)
  qed
next
  case (Some x0)
  then have own: "k \<in> set (obj_keys (snd out))"
    using obj_get_None_iff [of "snd out" k] by auto
  from Some have r: "attrs_read out k = Some x0" by (rule attrs_read_own)
  show ?thesis
  proof (cases "attr_merge (Some x0) v")
    case None
    with Some r show ?thesis by (simp add: mergeAttrs_step_eq merged_entry_def)
  next
    case s: (Some x)
    then have "attr_merge (Some x) v = Some x" by (rule attr_merge_stable)
    with s r own show ?thesis
      by (simp add: mergeAttrs_step_eq merged_entry_def obj_get_attrs_assign)
  qed
qed

lemma mergeAttrs_establishes:
  "distinct (map fst d) \<Longrightarrow> kv \<in> set d \<Longrightarrow> merged_entry (snd (foldl mergeAttrs_step out d)) kv"
proof (induction d arbitrary: out)
  case Nil
  then show ?case by simp
next
  case (Cons a d)
  show ?case
  proof (cases "kv = a")
    case True
    with Cons.prems have "fst kv \<notin> fst ` set d" by auto
    then have "obj_get (snd (foldl mergeAttrs_step (mergeAttrs_step out a) d)) (fst kv)
                 = obj_get (snd (mergeAttrs_step out a)) (fst kv)"
      by (rule mergeAttrs_get_other)
    then have "merged_entry (snd (foldl mergeAttrs_step (mergeAttrs_step out a) d)) kv
                 = merged_entry (snd (mergeAttrs_step out a)) kv"
      by (rule merged_entry_cong)
    moreover have "merged_entry (snd (mergeAttrs_step out a)) kv"
      using mergeAttrs_step_establishes [of out "fst kv" "snd kv"] by (simp add: True)
    ultimately show ?thesis by simp
  next
    case False
    with Cons.prems have "kv \<in> set d" and "distinct (map fst d)" by auto
    from Cons.IH [OF this(2) this(1)] show ?thesis by simp
  qed
qed

lemma mergeAttrs_step_fixed:
  assumes "merged_entry m kv"
  shows "snd (mergeAttrs_step (p, m) kv) = m"
proof -
  obtain k v where kv: "kv = (k, v)" by (cases kv)
  show ?thesis
  proof (cases "obj_get m k")
    case None
    then have notin: "k \<notin> set (obj_keys m)" by (simp add: obj_get_None_iff)
    from None have r: "attrs_read (p, m) k = inherited_attr p k" by (simp add: attrs_read_def)
    show ?thesis
    proof (cases "k = ''__proto__''")
      case True
      with notin show ?thesis
        by (simp add: kv mergeAttrs_step_eq attrs_assign_def split: option.splits)
    next
      case False
      with assms None have "v = Null" by (simp add: merged_entry_def kv)
      with False r show ?thesis
        by (simp add: kv mergeAttrs_step_eq attr_merge_inherited_Null)
    qed
  next
    case (Some x)
    then have own: "k \<in> set (obj_keys m)" using obj_get_None_iff [of m k] by auto
    from Some have r: "attrs_read (p, m) k = Some x" by (simp add: attrs_read_def)
    from Some have same: "obj_replace k x m = m" by (simp add: obj_get_def obj_replace_same)
    from assms Some have "attr_merge (Some x) v = None \<or> attr_merge (Some x) v = Some x"
      by (simp add: merged_entry_def kv)
    then show ?thesis
      using r own same by (auto simp: kv mergeAttrs_step_eq attrs_assign_def)
  qed
qed

lemma mergeAttrs_fixed:
  "\<forall>kv \<in> set d. merged_entry m kv \<Longrightarrow> snd (foldl mergeAttrs_step (p, m) d) = m"
proof (induction d arbitrary: p)
  case Nil
  then show ?case by simp
next
  case (Cons kv d)
  from Cons.prems have "merged_entry m kv" by simp
  then have "snd (mergeAttrs_step (p, m) kv) = m" by (rule mergeAttrs_step_fixed)
  then obtain p' where "mergeAttrs_step (p, m) kv = (p', m)"
    by (cases "mergeAttrs_step (p, m) kv") simp
  with Cons show ?case by simp
qed

lemma mergeAttrs_idem:
  assumes "distinct (obj_keys d)"
  shows "mergeAttrs (mergeAttrs a d) d = mergeAttrs a d"
proof -
  from assms have "\<forall>kv \<in> set d. merged_entry (mergeAttrs a d) kv"
    by (simp add: mergeAttrs_def obj_keys_def mergeAttrs_establishes)
  then show ?thesis unfolding mergeAttrs_def [of "mergeAttrs a d"] by (rule mergeAttrs_fixed)
qed

lemma merge_entity_idem:
  assumes "distinct (obj_keys (attrs e))"
  shows "merge_entity (Own (merge_entity prev e)) e = merge_entity prev e"
  using assms by (simp add: merge_entity_def mergeAttrs_idem dedupeEvidence_again)

lemma prune_entity_merge_entity: "prune_entity (merge_entity prev e) = merge_entity prev e"
  by (simp add: prune_entity_def merge_entity_def dedupeEvidence_idem)

subsection \<open>Canonical ids\<close>

lemma normalizeType_cases:
  "normalizeType t \<in> {''Character'', ''Location'', ''Rule'', ''Object'', ''Concept''}"
  by (simp add: normalizeType_def Let_def)

lemma hasPrefix_type_name:
  assumes "ty \<in> {''Character'', ''Location'', ''Rule'', ''Object'', ''Concept''}"
  shows "hasPrefix (ty @ '':'' @ i)"
  using assms by (auto simp: hasPrefix_def is_alpha_def)

lemma hasPrefix_canonical_id: "hasPrefix (canonical_id e)"
proof (cases "hasPrefix (ent_id e)")
  case True
  then show ?thesis by (simp add: canonical_id_def ensureIdPrefix_def)
next
  case False
  have "hasPrefix (canonical_type e @ '':'' @ ent_id e)"
    unfolding canonical_type_def by (rule hasPrefix_type_name [OF normalizeType_cases])
  with False show ?thesis by (simp add: canonical_id_def ensureIdPrefix_def)
qed

lemma alpha_not_digit: "is_alpha c \<Longrightarrow> \<not> is_digit c"
  by (auto simp: is_alpha_def is_digit_def less_eq_char_def)

lemma hasPrefix_not_index: "hasPrefix s \<Longrightarrow> \<not> is_array_index s"
proof (cases s)
  case Nil
  then show ?thesis by (simp add: is_array_index_def)
next
  case (Cons c cs)
  assume "hasPrefix s"
  with Cons have "is_alpha c" by (auto simp: hasPrefix_def split: if_splits)
  then have "\<not> is_digit c" by (rule alpha_not_digit)
  with Cons show ?thesis by (simp add: is_array_index_def)
qed

lemma obj_set_new_last:
  "k \<notin> set (obj_keys obj) \<Longrightarrow> hasPrefix k \<Longrightarrow> obj_set k v obj = obj @ [(k, v)]"
  by (simp add: obj_set_def hasPrefix_not_index)

text \<open>
  An id with a prefix is not the name of a property of \<^verbatim>\<open>Object.prototype\<close>: under a
  canonical id, a read finds an own property or nothing, and an assignment makes an own
  property.
\<close>

lemma hasPrefix_plain: "hasPrefix k \<Longrightarrow> k \<notin> set object_prototype_names"
  using hasPrefix_object_prototype_names by blast

lemma js_read_prefixed: "hasPrefix k \<Longrightarrow> js_read obj k = own_read (obj_get obj k)"
  by (simp add: js_read_def own_read_def hasPrefix_plain split: option.splits)

lemma js_write_prefixed: "hasPrefix k \<Longrightarrow> js_write k v obj = obj_set k v obj"
  by (simp add: js_write_plain hasPrefix_plain)

lemma upsert_into_eq:
  "upsert_into b e =
     b\<lparr>entities := obj_set (canonical_id e)
                     (merge_entity (own_read (obj_get (entities b) (canonical_id e))) e) (entities b)\<rparr>"
  by (simp add: upsert_into_def js_read_prefixed js_write_prefixed hasPrefix_canonical_id)

lemma map_prune_fixed:
  "\<forall>kv \<in> set obj. f (snd kv) = snd kv \<Longrightarrow> map (\<lambda>kv. (fst kv, f (snd kv))) obj = obj"
  by (induction obj) auto

text \<open>The entity part of a pruned aggregate.\<close>

lemma entities_loaded_fixed:
  assumes "pruneBible b = b"
  shows "map (\<lambda>kv. (fst kv, prune_entity (snd kv))) (entities b) = entities b"
    and "length (entities b) \<le> MAX_ENTITIES"
proof -
  have e: "entities b = map (\<lambda>kv. (fst kv, prune_entity (snd kv))) (take MAX_ENTITIES (entities b))"
    using assms entities_pruneBible [of b] by simp
  then have "length (entities b) = length (take MAX_ENTITIES (entities b))"
    by (metis length_map)
  then show l: "length (entities b) \<le> MAX_ENTITIES" by simp
  then have "take MAX_ENTITIES (entities b) = entities b" by simp
  with e have e': "entities b = map (\<lambda>kv. (fst kv, prune_entity (snd kv))) (entities b)" by simp
  have "map (\<lambda>kv. (fst kv, prune_entity (snd kv))) (map (\<lambda>kv. (fst kv, prune_entity (snd kv))) (entities b))
          = map (\<lambda>kv. (fst kv, prune_entity (snd kv))) (entities b)"
    by (simp add: o_def prune_entity_idem)
  with e' show "map (\<lambda>kv. (fst kv, prune_entity (snd kv))) (entities b) = entities b" by simp
qed

subsection \<open>What an upsert writes\<close>

lemma obj_get_take: "obj_get (take n obj) k = Some v \<Longrightarrow> obj_get obj k = Some v"
proof (induction obj arbitrary: n)
  case Nil
  then show ?case by (simp add: obj_get_def)
next
  case (Cons a obj)
  then show ?case
    by (cases n) (auto simp: obj_get_def split: if_splits)
qed

lemma entities_written:
  "entities (pruneBible ((upsert_into b e)\<lparr>updatedAt := now, schemaVersion := v\<rparr>))
     = written_entities (entities b) e"
  by (simp add: entities_pruneBible upsert_into_eq written_entities_def)

lemma written_entities_idem:
  assumes d: "distinct (obj_keys (attrs e))"
  shows "written_entities (written_entities es e) e = written_entities es e"
proof -
  let ?cid = "canonical_id e"
  let ?pr = "\<lambda>kv::string \<times> Entity. (fst kv, prune_entity (snd kv))"
  let ?m1 = "merge_entity (own_read (obj_get es ?cid)) e"
  let ?S = "obj_set ?cid ?m1 es"
  let ?E1 = "written_entities es e"
  have E1: "?E1 = map ?pr (take MAX_ENTITIES ?S)" by (simp add: written_entities_def)
  have len: "length ?E1 \<le> MAX_ENTITIES" by (simp add: E1)
  have fixed: "map ?pr ?E1 = ?E1" by (simp add: E1 o_def prune_entity_idem)
  have get: "obj_get ?E1 ?cid = map_option prune_entity (obj_get (take MAX_ENTITIES ?S) ?cid)"
    unfolding E1 by (rule obj_get_map_values)
  show ?thesis
  proof (cases "obj_get ?E1 ?cid")
    case (Some x)
    with get have "map_option prune_entity (obj_get (take MAX_ENTITIES ?S) ?cid) = Some x"
      by simp
    then obtain y where y: "obj_get (take MAX_ENTITIES ?S) ?cid = Some y" and x: "x = prune_entity y"
      by (cases "obj_get (take MAX_ENTITIES ?S) ?cid") auto
    from obj_get_take [OF y] have "y = ?m1" by (simp add: obj_get_set)
    with x have x': "x = ?m1" by (simp add: prune_entity_merge_entity)
    have m2: "merge_entity (own_read (obj_get ?E1 ?cid)) e = ?m1"
      using d by (simp add: Some x' own_read_def merge_entity_idem)
    have "obj_set ?cid ?m1 ?E1 = ?E1"
      using Some x' by (simp add: obj_set_same)
    with m2 have "written_entities ?E1 e = map ?pr (take MAX_ENTITIES ?E1)"
      by (simp add: written_entities_def [of ?E1])
    with len fixed show ?thesis by simp
  next
    case None
    then have notin: "?cid \<notin> set (obj_keys ?E1)" by (simp add: obj_get_None_iff)
    have "length ?S > MAX_ENTITIES"
    proof (rule ccontr)
      assume "\<not> length ?S > MAX_ENTITIES"
      then have "take MAX_ENTITIES ?S = ?S" by simp
      with get have "obj_get ?E1 ?cid = Some (prune_entity ?m1)" by (simp add: obj_get_set)
      with None show False by simp
    qed
    then have full: "length ?E1 = MAX_ENTITIES" by (simp add: E1)
    have "obj_set ?cid (merge_entity (own_read (obj_get ?E1 ?cid)) e) ?E1
            = ?E1 @ [(?cid, merge_entity (own_read (obj_get ?E1 ?cid)) e)]"
      using notin hasPrefix_canonical_id by (rule obj_set_new_last)
    then have "written_entities ?E1 e
        = map ?pr (take MAX_ENTITIES (?E1 @ [(?cid, merge_entity (own_read (obj_get ?E1 ?cid)) e)]))"
      by (simp add: written_entities_def [of ?E1])
    also have "\<dots> = map ?pr ?E1" using full by simp
    finally show ?thesis using fixed by simp
  qed
qed

subsection \<open>Evidence that JSON keeps\<close>

lemma json_safe_entities_fixed:
  "json_safe_entities es \<Longrightarrow> map (\<lambda>kv. (fst kv, json_entity (snd kv))) es = es"
  by (rule map_prune_fixed) (simp add: json_safe_entities_def list_all_iff json_entity_fixed_iff)

lemma json_safe_entities_json: "json_bible b = b \<Longrightarrow> json_safe_entities (entities b)"
proof -
  assume "json_bible b = b"
  then have "entities (json_bible b) = entities b" by simp
  then have "map (\<lambda>kv. (fst kv, json_entity (snd kv))) (entities b) = entities b"
    by (simp add: json_bible_def)
  then have "\<forall>kv \<in> set (entities b). (fst kv, json_entity (snd kv)) = kv"
    by (simp add: map_eq_conv [where g = "\<lambda>x. x", simplified])
  then have "\<forall>kv \<in> set (entities b). json_entity (snd kv) = snd kv"
    by (metis snd_conv)
  then show ?thesis by (simp add: json_safe_entities_def list_all_iff json_entity_fixed_iff)
qed

lemma json_safe_entities_take: "json_safe_entities es \<Longrightarrow> json_safe_entities (take n es)"
  by (auto simp: json_safe_entities_def list_all_iff dest: in_set_takeD)

lemma json_safe_entities_prune:
  "json_safe_entities es \<Longrightarrow> json_safe_entities (map (\<lambda>kv. (fst kv, prune_entity (snd kv))) es)"
  by (induction es) (simp_all add: json_safe_entities_def prune_entity_def json_safe_dedupeEvidence)

lemma set_obj_replace: "set (obj_replace k v obj) \<subseteq> insert (k, v) (set obj)"
  by (induction obj) (auto split: if_splits)

lemma set_obj_insert_index: "set (obj_insert_index k v obj) = insert (k, v) (set obj)"
  by (induction obj) (auto split: if_splits)

lemma set_obj_set: "set (obj_set k v obj) \<subseteq> insert (k, v) (set obj)"
  using set_obj_replace [of k v obj] by (auto simp: obj_set_def set_obj_insert_index)

lemma json_safe_entities_set:
  assumes "json_safe_entities es" and "list_all json_safe (evidence x)"
  shows "json_safe_entities (obj_set k x es)"
  using assms set_obj_set [of k x es] by (auto simp: json_safe_entities_def list_all_iff)

lemma json_safe_obj_get:
  "json_safe_entities es \<Longrightarrow> obj_get es k = Some p \<Longrightarrow> list_all json_safe (evidence p)"
  by (auto simp: json_safe_entities_def list_all_iff obj_get_def dest: map_of_SomeD)

lemma json_safe_merge_entity:
  assumes "json_safe_entities es" and "list_all json_safe (evidence e)"
  shows "list_all json_safe (evidence (merge_entity (own_read (obj_get es k)) e))"
proof -
  have "list_all json_safe ((case own_read (obj_get es k) of Own p \<Rightarrow> evidence p | _ \<Rightarrow> []) @ evidence e)"
    using assms json_safe_obj_get [OF assms(1), of k]
    by (cases "obj_get es k") (simp_all add: own_read_def)
  then show ?thesis by (simp add: merge_entity_def json_safe_dedupeEvidence)
qed

lemma json_safe_upserted:
  assumes "json_safe_entities es" and "list_all json_safe (evidence e)"
  shows "json_safe_entities (obj_set (canonical_id e)
           (merge_entity (own_read (obj_get es (canonical_id e))) e) es)"
  by (rule json_safe_entities_set [OF assms(1) json_safe_merge_entity [OF assms]])

lemma json_safe_written:
  assumes "json_safe_entities es" and "list_all json_safe (evidence e)"
  shows "json_safe_entities (written_entities es e)"
  unfolding written_entities_def
  by (intro json_safe_entities_prune json_safe_entities_take json_safe_upserted assms)

subsection \<open>Idempotence of upsertEntity\<close>

lemma pruneBible_loaded: "pruneBible (migrate (stored s pid) pid now) = migrate (stored s pid) pid now"
  by (rule pruneBible_migrate)

lemma json_safe_loaded: "json_safe_entities (entities (migrate (stored s pid) pid now))"
  by (rule json_safe_entities_json) (rule json_migrate_stored)

text \<open>What a call of \<open>upsertEntity\<close> that returns has stored.\<close>

lemma upsertEntity_stored:
  assumes "readable s pid"
  shows "\<exists>s1. upsertEntity s pid e now = Inr s1
           \<and> readable s1 pid
           \<and> stored s1 pid = Some (json_bible (pruneBible
               ((upsert_into (migrate (stored s pid) pid now) e)
                  \<lparr>updatedAt := now, schemaVersion := Some SCHEMA_VERSION\<rparr>)))"
proof -
  let ?B = "(upsert_into (migrate (stored s pid) pid now) e)\<lparr>updatedAt := now\<rparr>"
  have p: "projectId ?B = pid" by (simp add: projectId_upsert_into projectId_migrate)
  from stored_put_after_get [OF p, of s now now]
  have "stored (putBible (after_get s pid now) ?B now) pid
          = Some (json_bible (pruneBible
               ((upsert_into (migrate (stored s pid) pid now) e)
                  \<lparr>updatedAt := now, schemaVersion := Some SCHEMA_VERSION\<rparr>)))"
    by simp
  then show ?thesis
    by (simp add: upsertEntity_readable [OF assms] readable_def)
qed

lemma entities_stored_upsert:
  "entities (json_bible (pruneBible ((upsert_into b e)\<lparr>updatedAt := now, schemaVersion := v\<rparr>)))
     = map (\<lambda>kv. (fst kv, json_entity (snd kv))) (written_entities (entities b) e)"
  by (simp only: entities_json_bible entities_written)

lemma entities_stored_upsert_safe:
  assumes "json_safe_entities (entities b)" and "list_all json_safe (evidence e)"
  shows "entities (json_bible (pruneBible ((upsert_into b e)\<lparr>updatedAt := now, schemaVersion := v\<rparr>)))
     = written_entities (entities b) e"
  unfolding entities_stored_upsert
  by (rule json_safe_entities_fixed) (rule json_safe_written [OF assms])

text \<open>What the store has written is read back as it is, if JSON keeps the delta's evidence.\<close>

lemma migrate_written:
  assumes "projectId b = pid"
    and "json_safe_entities (take MAX_ENTITIES (entities b))"
  shows "migrate (Some (json_bible (pruneBible (b\<lparr>updatedAt := now, schemaVersion := Some SCHEMA_VERSION\<rparr>)))) pid now'
           = json_bible (pruneBible (b\<lparr>updatedAt := now, schemaVersion := Some SCHEMA_VERSION\<rparr>))"
proof -
  let ?B = "b\<lparr>updatedAt := now, schemaVersion := Some SCHEMA_VERSION\<rparr>"
  let ?w = "json_bible (pruneBible ?B)"
  have v: "schemaVersion ?w = Some SCHEMA_VERSION"
    by (simp add: schemaVersion_pruneBible schemaVersion_json_bible)
  have "projectId ?w = pid"
    using assms(1) by (simp add: projectId_pruneBible projectId_json_bible)
  then have "?w\<lparr>projectId := pid\<rparr> = ?w" by (metis Bible.surjective Bible.update_convs(1))
  moreover have "pruneBible ?w = ?w"
    using assms(2) by (intro prune_written) (simp add: json_safe_entities_def list_all_iff)
  ultimately have "pruneBible (?w\<lparr>projectId := pid\<rparr>) = ?w" by simp
  with v show ?thesis by (simp only: migrate_def Let_def option.case option.distinct if_False)
qed

lemma migrate_upserted:
  assumes "projectId b = pid" and "json_safe_entities (entities b)"
    and "list_all json_safe (evidence e)"
  shows "migrate (Some (json_bible (pruneBible ((upsert_into b e)\<lparr>updatedAt := now, schemaVersion := Some SCHEMA_VERSION\<rparr>)))) pid now'
           = json_bible (pruneBible ((upsert_into b e)\<lparr>updatedAt := now, schemaVersion := Some SCHEMA_VERSION\<rparr>))"
proof -
  have "json_safe_entities (take MAX_ENTITIES (entities (upsert_into b e)))"
    unfolding upsert_into_eq using json_safe_upserted [OF assms(2,3)]
    by (simp add: json_safe_entities_take)
  moreover have "projectId (upsert_into b e) = pid" using assms(1) by (simp add: projectId_upsert_into)
  ultimately show ?thesis
    using migrate_written [of "upsert_into b e" pid now now']
    by (simp add: json_safe_entities_take)
qed

text \<open>
  Claim C2, amended. For a delta whose evidence has no span with \<open>NaN\<close> or an infinity
  (and whose attributes are those of a JavaScript object, with distinct keys): if the
  project id can be read, a second \<open>upsertEntity\<close> of the delta leaves, under the delta's
  canonical id, the entity that the first one left, with the same attributes and the same
  evidence (and no entity in both cases, when the aggregate is full and the entity cap
  drops the new entry). If the project id cannot be read, the call throws.
\<close>

theorem upsertEntity_idempotent:
  assumes "distinct (obj_keys (attrs e))" and "list_all json_safe (evidence e)"
  shows "(readable s pid \<longrightarrow>
            (\<exists>s1 s2 b1 b2. upsertEntity s pid e t1 = Inr s1 \<and> upsertEntity s1 pid e t2 = Inr s2
               \<and> stored s1 pid = Some b1 \<and> stored s2 pid = Some b2
               \<and> obj_get (entities b2) (canonical_id e) = obj_get (entities b1) (canonical_id e)))
         \<and> (\<not> readable s pid \<longrightarrow> upsertEntity s pid e t1 = Inl TypeError)"
proof (intro conjI impI)
  assume r: "readable s pid"
  let ?b = "migrate (stored s pid) pid t1"
  let ?b1 = "json_bible (pruneBible ((upsert_into ?b e)\<lparr>updatedAt := t1, schemaVersion := Some SCHEMA_VERSION\<rparr>))"
  let ?b2 = "json_bible (pruneBible ((upsert_into ?b1 e)\<lparr>updatedAt := t2, schemaVersion := Some SCHEMA_VERSION\<rparr>))"
  from upsertEntity_stored [OF r, of e t1] obtain s1 where
    u1: "upsertEntity s pid e t1 = Inr s1" and r1: "readable s1 pid" and st1: "stored s1 pid = Some ?b1"
    by blast
  have safe: "json_safe_entities (entities ?b)" by (rule json_safe_loaded)
  have rd: "migrate (stored s1 pid) pid t2 = ?b1"
    unfolding st1 by (rule migrate_upserted [OF projectId_migrate safe assms(2)])
  from upsertEntity_stored [OF r1, of e t2] obtain s2 where
    u2: "upsertEntity s1 pid e t2 = Inr s2" and st2: "stored s2 pid = Some ?b2"
    unfolding rd by blast
  have e1: "entities ?b1 = written_entities (entities ?b) e"
    by (rule entities_stored_upsert_safe [OF safe assms(2)])
  have safe1: "json_safe_entities (entities ?b1)"
    unfolding e1 by (rule json_safe_written [OF safe assms(2)])
  have "entities ?b2 = written_entities (entities ?b1) e"
    by (rule entities_stored_upsert_safe [OF safe1 assms(2)])
  with e1 have "entities ?b2 = entities ?b1"
    using assms(1) by (simp only: written_entities_idem)
  with u1 u2 st1 st2
  show "\<exists>s1 s2 b1 b2. upsertEntity s pid e t1 = Inr s1 \<and> upsertEntity s1 pid e t2 = Inr s2
               \<and> stored s1 pid = Some b1 \<and> stored s2 pid = Some b2
               \<and> obj_get (entities b2) (canonical_id e) = obj_get (entities b1) (canonical_id e)"
    by simp
next
  assume "\<not> readable s pid"
  then show "upsertEntity s pid e t1 = Inl TypeError" by (rule upsertEntity_unreadable)
qed

theorem upsertEntity_idempotent_witness:
  "distinct (obj_keys (attrs mercy_first)) \<and> list_all json_safe (evidence mercy_first)
   \<and> readable None ''p1''
   \<and> (\<exists>s1 s2 b1 b2. upsertEntity None ''p1'' mercy_first 1 = Inr s1
          \<and> upsertEntity s1 ''p1'' mercy_first 2 = Inr s2
          \<and> stored s1 ''p1'' = Some b1 \<and> stored s2 ''p1'' = Some b2
          \<and> obj_get (entities b2) (canonical_id mercy_first)
               = obj_get (entities b1) (canonical_id mercy_first))"
proof -
  have d: "distinct (obj_keys (attrs mercy_first))"
    by (simp add: mercy_first_def obj_keys_def)
  have j: "list_all json_safe (evidence mercy_first)"
    by (simp add: mercy_first_def mercy_quote_def json_safe_def json_evidence_def)
  have r: "readable None ''p1''"
    by (simp add: readable_def object_prototype_names_def)
  from upsertEntity_idempotent [OF d j, of None "''p1''" 1 2] d j r show ?thesis by blast
qed


subsection \<open>Runs of upserts\<close>

lemma entities_loaded:
  "entities (migrate (stored s pid) pid now)
     = map (\<lambda>kv. (fst kv, prune_entity (snd kv))) (take MAX_ENTITIES (entities_of s pid))"
  by (cases "stored s pid") (simp_all add: entities_of_def migrate_def Let_def entities_pruneBible)

lemma upsertEntity_entities:
  assumes "readable s pid"
  shows "\<exists>s1. upsertEntity s pid e now = Inr s1 \<and> readable s1 pid \<and> stored s1 pid \<noteq> None
           \<and> entities_of s1 pid = upserted_entities (entities_of s pid) e"
proof -
  from upsertEntity_stored [OF assms, of e now] obtain s1 where
    u: "upsertEntity s pid e now = Inr s1" and r: "readable s1 pid"
    and st: "stored s1 pid = Some (json_bible (pruneBible
               ((upsert_into (migrate (stored s pid) pid now) e)
                  \<lparr>updatedAt := now, schemaVersion := Some SCHEMA_VERSION\<rparr>)))"
    by blast
  have "entities_of s1 pid = upserted_entities (entities_of s pid) e"
    by (simp only: entities_of_def st option.case entities_stored_upsert entities_loaded
        upserted_entities_def)
  with u r st show ?thesis by simp
qed

lemma upsert_all_snoc:
  "upsert_all s pid (ets @ [et]) =
     and_then (upsert_all s pid ets) (\<lambda>s'. upsertEntity s' pid (fst et) (snd et))"
  by (simp add: upsert_all_def)

lemma upsert_all_entities:
  assumes "readable s pid"
  shows "\<exists>s'. upsert_all s pid ets = Inr s' \<and> readable s' pid
           \<and> (ets \<noteq> [] \<longrightarrow> stored s' pid \<noteq> None)
           \<and> entities_of s' pid = foldl upserted_entities (entities_of s pid) (map fst ets)"
proof (induction ets rule: rev_induct)
  case Nil
  with assms show ?case by (simp add: upsert_all_def)
next
  case (snoc et ets)
  then obtain s' where a: "upsert_all s pid ets = Inr s'" and r: "readable s' pid"
    and e: "entities_of s' pid = foldl upserted_entities (entities_of s pid) (map fst ets)"
    by blast
  from upsertEntity_entities [OF r, of "fst et" "snd et"] obtain s1 where
    u: "upsertEntity s' pid (fst et) (snd et) = Inr s1" and r1: "readable s1 pid"
    and n1: "stored s1 pid \<noteq> None"
    and e1: "entities_of s1 pid = upserted_entities (entities_of s' pid) (fst et)"
    by blast
  from a u have "upsert_all s pid (ets @ [et]) = Inr s1"
    by (simp add: upsert_all_snoc and_then_def)
  with r1 n1 e1 e show ?case by simp
qed

lemma entity_in_upsert_all:
  assumes "readable s pid"
  shows "entity_in (upsert_all s pid ets) pid k
           = obj_get (foldl upserted_entities (entities_of s pid) (map fst ets)) k"
proof -
  from upsert_all_entities [OF assms, of ets] obtain s' where
    a: "upsert_all s pid ets = Inr s'"
    and e: "entities_of s' pid = foldl upserted_entities (entities_of s pid) (map fst ets)"
    by blast
  have "entity_of s' pid k = obj_get (entities_of s' pid) k"
    by (cases "stored s' pid") (simp_all add: entity_of_def entities_of_def obj_get_def)
  with a e show ?thesis by (simp add: entity_in_def)
qed

lemma readable_empty: "pid \<notin> set object_prototype_names \<Longrightarrow> readable None pid"
  by (simp add: readable_def)

lemma stored_empty: "stored None pid = None"
  by (simp add: stored_def getAll_def json_all_def obj_get_def)

lemma entities_of_empty: "entities_of None pid = []"
  by (simp add: entities_of_def stored_empty)

lemma p1_plain: "''p1'' \<notin> set object_prototype_names"
  by (simp add: object_prototype_names_def)

lemma upserted_entities_new:
  assumes "canonical_id e \<notin> set (obj_keys es)" and "length es < MAX_ENTITIES"
  shows "upserted_entities es e
           = map (\<lambda>kv. (fst kv, json_entity (prune_entity (snd kv)))) es
             @ [(canonical_id e, json_entity (merge_entity Missing e))]"
proof -
  let ?L = "map (\<lambda>kv. (fst kv, prune_entity (snd kv))) (take MAX_ENTITIES es)"
  from assms(2) have L: "?L = map (\<lambda>kv. (fst kv, prune_entity (snd kv))) es" by simp
  from assms(1) have notin: "canonical_id e \<notin> set (obj_keys ?L)"
    by (simp add: L obj_keys_map_values)
  then have g: "obj_get ?L (canonical_id e) = None" by (simp add: obj_get_None_iff)
  from obj_set_new_last [OF notin hasPrefix_canonical_id] assms(2) g
  show ?thesis
    by (simp add: upserted_entities_def written_entities_def own_read_def
        prune_entity_merge_entity prune_entity_idem o_def)
qed

lemma obj_replace_last:
  "k \<notin> set (obj_keys obj) \<Longrightarrow> obj_replace k v (obj @ [(k, w)]) = obj @ [(k, v)]"
  by (induction obj) (auto simp: obj_keys_def)

lemma upserted_entities_last:
  assumes "canonical_id e \<notin> set (obj_keys es)" and "length es < MAX_ENTITIES"
  shows "upserted_entities (es @ [(canonical_id e, x)]) e
           = map (\<lambda>kv. (fst kv, json_entity (prune_entity (snd kv)))) es
             @ [(canonical_id e, json_entity (merge_entity (Own (prune_entity x)) e))]"
proof -
  let ?pr = "\<lambda>kv::string \<times> Entity. (fst kv, prune_entity (snd kv))"
  let ?L = "map ?pr (take MAX_ENTITIES (es @ [(canonical_id e, x)]))"
  from assms(2) have L: "?L = map ?pr es @ [(canonical_id e, prune_entity x)]" by simp
  from assms(1) have notin: "canonical_id e \<notin> set (obj_keys (map ?pr es))"
    by (simp add: obj_keys_map_values)
  have g: "obj_get ?L (canonical_id e) = Some (prune_entity x)"
    unfolding L using notin by (simp add: obj_get_append_new)
  have "canonical_id e \<in> set (obj_keys ?L)" unfolding L by (simp add: obj_keys_def)
  then have s: "obj_set (canonical_id e) (merge_entity (Own (prune_entity x)) e) ?L
               = map ?pr es @ [(canonical_id e, merge_entity (Own (prune_entity x)) e)]"
    unfolding L using notin by (simp add: obj_set_def obj_replace_last)
  show ?thesis
    unfolding upserted_entities_def written_entities_def g own_read_def option.case s
    using assms(2) by (simp add: prune_entity_merge_entity prune_entity_idem o_def)
qed

lemma canonical_nan_delta:
  "canonical_id nan_delta = ''Character:Mercy''" "canonical_type nan_delta = ''Character''"
  by (simp_all add: nan_delta_def canonical_id_def canonical_type_def ensureIdPrefix_def hasPrefix_def
      is_alpha_def normalizeType_def trim_def is_space_def)

lemma fields_nan_delta: "attrs nan_delta = []" "evidence nan_delta = [nan_evidence]"
  by (simp_all add: nan_delta_def)

lemma mergeAttrs_Nil: "mergeAttrs a [] = a"
  by (simp add: mergeAttrs_def)

lemma nan_once:
  "upserted_entities [] nan_delta
     = [(''Character:Mercy'', \<lparr>ent_id = ''Character:Mercy'', ent_type = ''Character'', attrs = [],
           evidence = [null_evidence]\<rparr>)]"
proof -
  have "canonical_id nan_delta \<notin> set (obj_keys [])" by (simp add: obj_keys_def)
  from upserted_entities_new [OF this] show ?thesis
    by (simp add: MAX_ENTITIES_def canonical_nan_delta merge_entity_def fields_nan_delta
        mergeAttrs_Nil dedupeEvidence_def MAX_EVIDENCE_PER_ENTITY_def json_entity_def
        json_evidence_def json_printed_def nan_evidence_def null_evidence_def)
qed

lemma nan_twice:
  "upserted_entities [(''Character:Mercy'', \<lparr>ent_id = ''Character:Mercy'', ent_type = ''Character'',
        attrs = [], evidence = [null_evidence]\<rparr>)] nan_delta
     = [(''Character:Mercy'', \<lparr>ent_id = ''Character:Mercy'', ent_type = ''Character'', attrs = [],
           evidence = [null_evidence, null_evidence]\<rparr>)]"
proof -
  have "canonical_id nan_delta \<notin> set (obj_keys [])" by (simp add: obj_keys_def)
  from upserted_entities_last [OF this, of "\<lparr>ent_id = ''Character:Mercy'', ent_type = ''Character'',
        attrs = [], evidence = [null_evidence]\<rparr>"] show ?thesis
    by (simp add: MAX_ENTITIES_def canonical_nan_delta merge_entity_def fields_nan_delta
        mergeAttrs_Nil prune_entity_def dedupeEvidence_def MAX_EVIDENCE_PER_ENTITY_def json_entity_def
        json_evidence_def json_printed_def nan_evidence_def null_evidence_def evidence_key_def
        join_text_def)
qed

text \<open>
  Claim C2 as stated fails for a delta whose evidence has a span with \<open>NaN\<close>. The first
  upsert stores the span with \<^verbatim>\<open>null\<close> in the place of \<open>NaN\<close>; the key of the stored entry
  is then another than the key of the delta's entry, and the second upsert of the same
  delta adds the entry once more.
\<close>

theorem upsertEntity_nan_span_counterexample:
  "map_option evidence (entity_in (upsert_all None ''p1'' [(nan_delta, 1)]) ''p1'' ''Character:Mercy'')
     = Some [null_evidence]
   \<and> map_option evidence
       (entity_in (upsert_all None ''p1'' [(nan_delta, 1), (nan_delta, 2)]) ''p1'' ''Character:Mercy'')
     = Some [null_evidence, null_evidence]"
  by (simp add: entity_in_upsert_all [OF readable_empty [OF p1_plain]] entities_of_empty
      nan_once nan_twice obj_get_def)

subsection \<open>The scenario of the specification\<close>

lemma canonical_mercy_first:
  "canonical_id mercy_first = ''Character:Mercy''" "canonical_type mercy_first = ''Character''"
  by (simp_all add: canonical_id_def canonical_type_def ensureIdPrefix_def hasPrefix_def is_alpha_def
      normalizeType_def trim_def is_space_def mercy_first_def)

lemma canonical_mercy_second:
  "canonical_id mercy_second = ''Character:Mercy''" "canonical_type mercy_second = ''Character''"
  by (simp_all add: canonical_id_def canonical_type_def ensureIdPrefix_def hasPrefix_def is_alpha_def
      normalizeType_def trim_def is_space_def mercy_second_def)

lemma fields_mercy_first:
  "attrs mercy_first = [(''motivation'', Str ''guilt'')]" "evidence mercy_first = [mercy_quote]"
  by (simp_all add: mercy_first_def)

lemma fields_mercy_second:
  "attrs mercy_second = [(''motivation'', Str ''revenge'')]" "evidence mercy_second = [mercy_quote]"
  by (simp_all add: mercy_second_def)

lemma json_mercy_quote: "json_evidence mercy_quote = mercy_quote"
  by (simp add: json_evidence_def mercy_quote_def)

lemma dedupe_mercy_quote:
  "dedupeEvidence [mercy_quote] = [mercy_quote]"
  "dedupeEvidence [mercy_quote, mercy_quote] = [mercy_quote]"
  by (simp_all add: dedupeEvidence_def MAX_EVIDENCE_PER_ENTITY_def)

lemma motivation_plain: "inherited_attr ObjectPrototype ''motivation'' = None"
  by (simp add: inherited_attr_def object_prototype_attr_def object_prototype_names_def)

lemma mergeAttrs_motivation_new:
  "mergeAttrs [] [(''motivation'', Str x)] = [(''motivation'', Str x)]"
  by (simp add: mergeAttrs_def mergeAttrs_step_def attrs_read_def obj_get_def motivation_plain
      attrs_assign_def obj_keys_def obj_set_def is_array_index_def is_digit_def)

lemma mergeAttrs_motivation:
  "mergeAttrs [(''motivation'', Str a)] [(''motivation'', Str x)]
     = [(''motivation'', if a \<noteq> [] \<and> a \<noteq> x then Arr (uniq [a, x]) else Str x)]"
  by (simp add: mergeAttrs_def mergeAttrs_step_def attrs_read_def obj_get_def
      attrs_assign_def obj_keys_def)

lemma merge_mercy_first:
  "json_entity (merge_entity Missing mercy_first)
     = \<lparr>ent_id = ''Character:Mercy'', ent_type = ''Character'',
        attrs = [(''motivation'', Str ''guilt'')], evidence = [mercy_quote]\<rparr>"
  by (simp add: merge_entity_def canonical_mercy_first fields_mercy_first mergeAttrs_motivation_new
      dedupe_mercy_quote json_entity_def json_mercy_quote)

lemma merge_mercy_second:
  "json_entity (merge_entity (Own (prune_entity
       \<lparr>ent_id = ''Character:Mercy'', ent_type = ''Character'',
        attrs = [(''motivation'', Str ''guilt'')], evidence = [mercy_quote]\<rparr>)) mercy_second)
     = mercy_merged"
  by (simp add: merge_entity_def canonical_mercy_second fields_mercy_second mergeAttrs_motivation
      prune_entity_def dedupe_mercy_quote json_entity_def json_mercy_quote mercy_merged_def uniq_def)

lemma entities_of_stored: "stored s pid = Some b \<Longrightarrow> entities_of s pid = entities b"
  by (simp add: entities_of_def)

text \<open>
  Claim C1, amended. For a project that has no aggregate yet and whose id is not the
  name of a property of \<^verbatim>\<open>Object.prototype\<close>, or whose stored aggregate has fewer than
  \<open>MAX_ENTITIES\<close> entities and none under the id \<open>Character:Mercy\<close>, the two upserts of
  the scenario return and leave exactly one entity under that id; its \<open>motivation\<close>
  holds both \<open>guilt\<close> and \<open>revenge\<close>, in this order, and its evidence is the one
  quote.
\<close>

theorem mercy_scenario:
  assumes "(stored s pid = None \<and> pid \<notin> set object_prototype_names)
           \<or> (\<exists>b0. stored s pid = Some b0
                 \<and> obj_get (entities b0) ''Character:Mercy'' = None
                 \<and> length (entities b0) < MAX_ENTITIES)"
  shows "\<exists>s1 s2 b2. upsertEntity s pid mercy_first t1 = Inr s1
           \<and> upsertEntity s1 pid mercy_second t2 = Inr s2
           \<and> stored s2 pid = Some b2
           \<and> obj_get (entities b2) ''Character:Mercy'' = Some mercy_merged
           \<and> length (filter (\<lambda>kv. fst kv = ''Character:Mercy'') (entities b2)) = 1"
proof -
  let ?E = "entities_of s pid"
  let ?jp = "\<lambda>kv::string \<times> Entity. (fst kv, json_entity (prune_entity (snd kv)))"
  from assms have r: "readable s pid" by (auto simp: readable_def)
  from assms have notin: "''Character:Mercy'' \<notin> set (obj_keys ?E)" and small: "length ?E < MAX_ENTITIES"
    by (auto simp: entities_of_def obj_get_None_iff obj_keys_def MAX_ENTITIES_def)
  from upsertEntity_entities [OF r, of mercy_first t1] obtain s1 where
    u1: "upsertEntity s pid mercy_first t1 = Inr s1" and r1: "readable s1 pid"
    and e1: "entities_of s1 pid = upserted_entities ?E mercy_first"
    by blast
  from upsertEntity_entities [OF r1, of mercy_second t2] obtain s2 where
    u2: "upsertEntity s1 pid mercy_second t2 = Inr s2" and n2: "stored s2 pid \<noteq> None"
    and e2: "entities_of s2 pid = upserted_entities (entities_of s1 pid) mercy_second"
    by blast
  from n2 obtain b2 where b2: "stored s2 pid = Some b2" by auto
  have E1: "entities_of s1 pid = map ?jp ?E @ [(''Character:Mercy'',
        \<lparr>ent_id = ''Character:Mercy'', ent_type = ''Character'',
         attrs = [(''motivation'', Str ''guilt'')], evidence = [mercy_quote]\<rparr>)]"
    using upserted_entities_new [of mercy_first ?E] notin small
    by (simp add: e1 canonical_mercy_first merge_mercy_first)
  have notin': "canonical_id mercy_second \<notin> set (obj_keys (map ?jp ?E))"
    using notin by (simp add: canonical_mercy_second obj_keys_def o_def)
  have small': "length (map ?jp ?E) < MAX_ENTITIES" using small by simp
  have E2: "entities b2 = map ?jp (map ?jp ?E) @ [(''Character:Mercy'', mercy_merged)]"
    using upserted_entities_last [OF notin' small']
    by (simp add: entities_of_stored [OF b2, symmetric] e2 E1 canonical_mercy_second
        merge_mercy_second)
  have notin2: "''Character:Mercy'' \<notin> set (obj_keys (map ?jp (map ?jp ?E)))"
    using notin by (simp add: obj_keys_def o_def)
  have "obj_get (entities b2) ''Character:Mercy'' = Some mercy_merged"
    unfolding E2 using notin2 by (simp add: obj_get_append_new)
  moreover have "filter (\<lambda>kv. fst kv = ''Character:Mercy'') (map ?jp (map ?jp ?E)) = []"
    using notin2 by (force simp: obj_keys_def filter_empty_conv)
  then have "length (filter (\<lambda>kv. fst kv = ''Character:Mercy'') (entities b2)) = 1"
    unfolding E2 by simp
  ultimately show ?thesis using u1 u2 b2 by simp
qed

theorem mercy_scenario_witness:
  "((stored None ''p1'' = None \<and> ''p1'' \<notin> set object_prototype_names)
    \<or> (\<exists>b0. stored None ''p1'' = Some b0
          \<and> obj_get (entities b0) ''Character:Mercy'' = None
          \<and> length (entities b0) < MAX_ENTITIES))
   \<and> (\<exists>s1 s2 b2. upsertEntity None ''p1'' mercy_first 1 = Inr s1
           \<and> upsertEntity s1 ''p1'' mercy_second 2 = Inr s2
           \<and> stored s2 ''p1'' = Some b2
           \<and> obj_get (entities b2) ''Character:Mercy'' = Some mercy_merged
           \<and> length (filter (\<lambda>kv. fst kv = ''Character:Mercy'') (entities b2)) = 1)"
proof -
  have h: "(stored None ''p1'' = None \<and> ''p1'' \<notin> set object_prototype_names)
    \<or> (\<exists>b0. stored None ''p1'' = Some b0
          \<and> obj_get (entities b0) ''Character:Mercy'' = None
          \<and> length (entities b0) < MAX_ENTITIES)"
    by (simp add: stored_empty p1_plain)
  from mercy_scenario [OF h, of 1 2] h show ?thesis by blast
qed

lemma full_entities_length: "length full_entities = MAX_ENTITIES"
  by (simp add: full_entities_def MAX_ENTITIES_def)

lemma full_entities_no_mercy: "''Character:Mercy'' \<notin> set (obj_keys full_entities)"
  by (auto simp: full_entities_def obj_keys_def)

lemma json_full_entities: "map (\<lambda>kv. (fst kv, json_entity (snd kv))) full_entities = full_entities"
  by (simp add: full_entities_def json_entity_def o_def)

lemma stored_full_store:
  "stored full_store ''p1'' = Some \<lparr>projectId = ''p1'', updatedAt = 0, schemaVersion = Some 1,
                    entities = full_entities, threads = [], style = empty_style\<rparr>"
  by (simp add: full_store_def stored_def getAll_def json_all_def json_bible_def json_full_entities
      json_empty_style obj_get_def)

text \<open>
  Into an aggregate that holds \<open>MAX_ENTITIES\<close> entities or more, an entity with a new id
  goes last and is cut off by the cap in the same operation.
\<close>

lemma upserted_entities_full:
  assumes "canonical_id e \<notin> set (obj_keys (take MAX_ENTITIES es))" and "MAX_ENTITIES \<le> length es"
  shows "obj_keys (upserted_entities es e) = obj_keys (take MAX_ENTITIES es)"
proof -
  let ?L = "map (\<lambda>kv. (fst kv, prune_entity (snd kv))) (take MAX_ENTITIES es)"
  from assms(1) have notin: "canonical_id e \<notin> set (obj_keys ?L)" by (simp add: obj_keys_map_values)
  from assms(2) have l: "length ?L = MAX_ENTITIES" by simp
  from obj_set_new_last [OF notin hasPrefix_canonical_id] l
  have "written_entities ?L e = map (\<lambda>kv. (fst kv, prune_entity (snd kv))) ?L"
    by (simp add: written_entities_def)
  then show ?thesis by (simp only: upserted_entities_def obj_keys_map_values)
qed

text \<open>
  Claim C1 as stated fails for a full aggregate: it has no entity under
  \<open>Character:Mercy\<close>, and after the two upserts it still has none.
\<close>

theorem mercy_scenario_full_counterexample:
  "entity_of full_store ''p1'' ''Character:Mercy'' = None
   \<and> stored_in (upsert_all full_store ''p1'' [(mercy_first, 1), (mercy_second, 2)]) ''p1'' \<noteq> None
   \<and> entity_in (upsert_all full_store ''p1'' [(mercy_first, 1), (mercy_second, 2)])
       ''p1'' ''Character:Mercy'' = None"
proof -
  have r: "readable full_store ''p1''" by (simp add: readable_def p1_plain)
  have e0: "entities_of full_store ''p1'' = full_entities"
    by (simp add: entities_of_def stored_full_store)
  have 0: "entity_of full_store ''p1'' ''Character:Mercy'' = None"
    using full_entities_no_mercy by (simp add: entity_of_def stored_full_store obj_get_None_iff)
  from upsert_all_entities [OF r, of "[(mercy_first, 1), (mercy_second, 2)]"] obtain s' where
    a: "upsert_all full_store ''p1'' [(mercy_first, 1), (mercy_second, 2)] = Inr s'"
    and n: "stored s' ''p1'' \<noteq> None"
    and e: "entities_of s' ''p1''
              = upserted_entities (upserted_entities full_entities mercy_first) mercy_second"
    by (auto simp: e0)
  have t: "take MAX_ENTITIES full_entities = full_entities" by (simp add: full_entities_length)
  have k1: "obj_keys (upserted_entities full_entities mercy_first) = obj_keys full_entities"
    using upserted_entities_full [of mercy_first full_entities] full_entities_no_mercy
    by (simp add: t canonical_mercy_first full_entities_length)
  then have l1: "length (upserted_entities full_entities mercy_first) = MAX_ENTITIES"
    using full_entities_length by (metis length_map obj_keys_def)
  then have t1: "take MAX_ENTITIES (upserted_entities full_entities mercy_first)
                   = upserted_entities full_entities mercy_first" by simp
  have k2: "obj_keys (upserted_entities (upserted_entities full_entities mercy_first) mercy_second)
              = obj_keys full_entities"
    using upserted_entities_full [of mercy_second "upserted_entities full_entities mercy_first"]
      full_entities_no_mercy
    by (simp add: t1 k1 l1 canonical_mercy_second)
  from n obtain b where b: "stored s' ''p1'' = Some b" by auto
  have "obj_get (entities_of s' ''p1'') ''Character:Mercy'' = None"
    using full_entities_no_mercy by (simp add: e obj_get_None_iff k2)
  then have "entity_of s' ''p1'' ''Character:Mercy'' = None"
    by (simp add: entity_of_def entities_of_def b)
  with 0 a n show ?thesis by (simp add: stored_in_def entity_in_def)
qed

subsection \<open>Empty attribute values\<close>

lemma canonical_mercy_blank:
  "canonical_id mercy_blank = ''Character:Mercy''" "canonical_type mercy_blank = ''Character''"
  by (simp_all add: canonical_id_def canonical_type_def ensureIdPrefix_def hasPrefix_def is_alpha_def
      normalizeType_def trim_def is_space_def mercy_blank_def)

lemma fields_mercy_blank: "attrs mercy_blank = [(''motivation'', Str [])]" "evidence mercy_blank = []"
  by (simp_all add: mercy_blank_def)

lemma mercy_once:
  "upserted_entities [] mercy_first
     = [(''Character:Mercy'', \<lparr>ent_id = ''Character:Mercy'', ent_type = ''Character'',
           attrs = [(''motivation'', Str ''guilt'')], evidence = [mercy_quote]\<rparr>)]"
proof -
  have "canonical_id mercy_first \<notin> set (obj_keys [])" by (simp add: obj_keys_def)
  from upserted_entities_new [OF this] show ?thesis
    by (simp add: MAX_ENTITIES_def canonical_mercy_first merge_mercy_first)
qed

lemma mercy_then_blank:
  "upserted_entities [(''Character:Mercy'', \<lparr>ent_id = ''Character:Mercy'', ent_type = ''Character'',
           attrs = [(''motivation'', Str ''guilt'')], evidence = [mercy_quote]\<rparr>)] mercy_blank
     = [(''Character:Mercy'', \<lparr>ent_id = ''Character:Mercy'', ent_type = ''Character'',
           attrs = [(''motivation'', Arr [''guilt'', []])], evidence = [mercy_quote]\<rparr>)]"
proof -
  have "canonical_id mercy_blank \<notin> set (obj_keys [])" by (simp add: obj_keys_def)
  from upserted_entities_last [OF this, of "\<lparr>ent_id = ''Character:Mercy'', ent_type = ''Character'',
           attrs = [(''motivation'', Str ''guilt'')], evidence = [mercy_quote]\<rparr>"] show ?thesis
    by (simp add: MAX_ENTITIES_def canonical_mercy_blank merge_entity_def fields_mercy_blank
        mergeAttrs_motivation prune_entity_def dedupe_mercy_quote json_entity_def json_mercy_quote
        uniq_def)
qed

text \<open>
  Claim C6, the failing input. The entity holds \<open>motivation = guilt\<close> and the delta's
  value for \<open>motivation\<close> is the empty string: the merge turns the value into the
  array of \<open>guilt\<close> and the empty string, in \<open>mergeAttrs\<close> and so in \<open>upsertEntity\<close>.
\<close>

theorem mergeAttrs_empty_string_alters:
  "mergeAttrs [(''motivation'', Str ''guilt'')] [(''motivation'', Str [])]
     = [(''motivation'', Arr [''guilt'', []])]
   \<and> map_option attrs (entity_in (upsert_all None ''p1'' [(mercy_first, 1)]) ''p1'' ''Character:Mercy'')
       = Some [(''motivation'', Str ''guilt'')]
   \<and> map_option attrs
        (entity_in (upsert_all None ''p1'' [(mercy_first, 1), (mercy_blank, 2)])
           ''p1'' ''Character:Mercy'')
       = Some [(''motivation'', Arr [''guilt'', []])]"
  by (simp add: entity_in_upsert_all [OF readable_empty [OF p1_plain]] entities_of_empty
      mercy_once mercy_then_blank obj_get_def mergeAttrs_motivation uniq_def)

subsection \<open>Thread names\<close>

lemma threads_loaded:
  "threads (migrate (stored s pid) pid now)
     = map prune_thread (drop (length (threads_of s pid) - MAX_THREADS) (threads_of s pid))"
  by (cases "stored s pid") (simp_all add: threads_of_def migrate_def Let_def threads_pruneBible)

lemma upsertThread_threads:
  assumes "readable s pid" and "trim (name t) \<noteq> []"
  shows "\<exists>s1. upsertThread s pid t now = Inr s1 \<and> readable s1 pid
           \<and> threads_of s1 pid = upserted_threads (threads_of s pid) t now"
proof -
  let ?b = "migrate (stored s pid) pid now"
  let ?i = "findIndex (\<lambda>x. name x = trim (name t)) (threads ?b)"
  let ?base = "case ?i of Some j \<Rightarrow> threads ?b ! j | None \<Rightarrow> new_thread (trim (name t)) now"
  let ?new = "case ?i of Some j \<Rightarrow> (threads ?b)[j := merged_thread ?base t now]
                | None \<Rightarrow> threads ?b @ [merged_thread ?base t now]"
  let ?B = "?b\<lparr>threads := ?new, updatedAt := now\<rparr>"
  have u: "upsertThread s pid t now = Inr (putBible (after_get s pid now) ?B now)"
    using assms(2)
    by (simp add: upsertThread_def getBible_readable [OF assms(1)] and_then_def Let_def
        cong: option.case_cong)
  have p: "projectId ?B = pid" by (simp add: projectId_migrate)
  have st: "stored (putBible (after_get s pid now) ?B now) pid
          = Some (json_bible (pruneBible (?B\<lparr>updatedAt := now, schemaVersion := Some SCHEMA_VERSION\<rparr>)))"
    by (rule stored_put_after_get [OF p])
  have n: "threads (?B\<lparr>updatedAt := now, schemaVersion := Some SCHEMA_VERSION\<rparr>) = ?new" by simp
  have 1: "threads_of (putBible (after_get s pid now) ?B now) pid
          = map json_thread (map prune_thread (drop (length ?new - MAX_THREADS) ?new))"
    by (simp only: threads_of_def st option.case threads_json_bible threads_pruneBible n)
  have 2: "upserted_threads (threads_of s pid) t now
          = map json_thread (map prune_thread (drop (length ?new - MAX_THREADS) ?new))"
    by (simp only: upserted_threads_def Let_def threads_loaded [symmetric, of s pid now])
  from u st 1 2 show ?thesis by (simp add: readable_def)
qed

lemma upsert_threads_snoc:
  "upsert_threads s pid (tts @ [tt]) =
     and_then (upsert_threads s pid tts) (\<lambda>s'. upsertThread s' pid (fst tt) (snd tt))"
  by (simp add: upsert_threads_def)

lemma upsert_threads_threads:
  assumes "readable s pid" and "\<forall>tt \<in> set tts. trim (name (fst tt)) \<noteq> []"
  shows "\<exists>s'. upsert_threads s pid tts = Inr s' \<and> readable s' pid
           \<and> threads_of s' pid
               = foldl (\<lambda>ths tt. upserted_threads ths (fst tt) (snd tt)) (threads_of s pid) tts"
  using assms(2)
proof (induction tts rule: rev_induct)
  case Nil
  with assms(1) show ?case by (simp add: upsert_threads_def)
next
  case (snoc tt tts)
  then obtain s' where a: "upsert_threads s pid tts = Inr s'" and r: "readable s' pid"
    and e: "threads_of s' pid
               = foldl (\<lambda>ths tt. upserted_threads ths (fst tt) (snd tt)) (threads_of s pid) tts"
    by auto
  from snoc.prems have "trim (name (fst tt)) \<noteq> []" by simp
  from upsertThread_threads [OF r this, of "snd tt"] obtain s1 where
    u: "upsertThread s' pid (fst tt) (snd tt) = Inr s1" and r1: "readable s1 pid"
    and e1: "threads_of s1 pid = upserted_threads (threads_of s' pid) (fst tt) (snd tt)"
    by blast
  from a u have "upsert_threads s pid (tts @ [tt]) = Inr s1"
    by (simp add: upsert_threads_snoc and_then_def)
  with r1 e1 e show ?case by simp
qed

lemma threads_of_empty: "threads_of None pid = []"
  by (simp add: threads_of_def stored_empty)

lemma trim_padded: "trim (name padded_thread) = ''A''"
  by (simp add: padded_thread_def trim_def is_space_def)

lemma padded_once:
  "map name (upserted_threads [] padded_thread 1) = ['' A'']"
  by (simp add: upserted_threads_def trim_padded Let_def merged_thread_def MAX_THREADS_def
      prune_thread_def json_thread_def, simp add: padded_thread_def)

text \<open>
  Claim C3, the failing input. Two upserts of the same delta, whose name has a leading
  blank, into an empty store: the lookup uses the trimmed name, the thread is stored under
  the name as given, so the second upsert finds no thread and appends a second one of
  the same name.
\<close>

theorem upsertThread_duplicate_name:
  "thread_names_in (upsert_threads None ''p1'' [(padded_thread, 1), (padded_thread, 2)]) ''p1''
     = ['' A'', '' A'']"
proof -
  have r: "readable None ''p1''" by (rule readable_empty [OF p1_plain])
  have n: "\<forall>tt \<in> set [(padded_thread, 1::nat), (padded_thread, 2)]. trim (name (fst tt)) \<noteq> []"
    by (simp add: trim_padded)
  from upsert_threads_threads [OF r n] obtain s' where
    a: "upsert_threads None ''p1'' [(padded_thread, 1), (padded_thread, 2)] = Inr s'"
    and e: "threads_of s' ''p1''
              = upserted_threads (upserted_threads [] padded_thread 1) padded_thread 2"
    by (auto simp: threads_of_empty)
  obtain t1 where t1: "upserted_threads [] padded_thread 1 = [t1]" and n1: "name t1 = '' A''"
    using padded_once by (cases "upserted_threads [] padded_thread 1") auto
  have "map name (upserted_threads [t1] padded_thread 2) = ['' A'', '' A'']"
    by (simp add: upserted_threads_def trim_padded Let_def merged_thread_def MAX_THREADS_def
        prune_thread_def json_thread_def n1, simp add: padded_thread_def)
  with a e t1 show ?thesis by (simp add: thread_names_in_def)
qed

subsection \<open>Ids and types of stored entities\<close>




lemma canonical_paris:
  "canonical_id paris_delta = ''Location:Paris''" "canonical_type paris_delta = ''Character''"
  by (simp_all add: canonical_id_def canonical_type_def ensureIdPrefix_def hasPrefix_def is_alpha_def
      normalizeType_def trim_def is_space_def paris_delta_def)

lemma fields_paris: "attrs paris_delta = []" "evidence paris_delta = []"
  by (simp_all add: paris_delta_def)

lemma dedupeEvidence_Nil: "dedupeEvidence [] = []"
  by (simp add: dedupeEvidence_def)





subsection \<open>How the operations end\<close>

lemma stored_after_get_Some: "\<exists>b. stored (after_get s pid now) pid = Some b"
  by (simp add: stored_after_get)

lemma readable_put_after_get:
  "projectId b = pid \<Longrightarrow> readable (putBible (after_get s pid now) b now') pid"
  by (simp add: readable_def stored_put_after_get)

lemma json_safe_entities_Nil: "json_safe_entities []"
  by (simp add: json_safe_entities_def)

lemma json_safe_fold_upsert:
  assumes "json_safe_entities (entities b)" and "\<forall>e \<in> set es. list_all json_safe (evidence e)"
  shows "json_safe_entities (entities (foldl upsert_into b es))"
  using assms
proof (induction es arbitrary: b)
  case Nil
  then show ?case by simp
next
  case (Cons e es)
  from Cons.prems have "json_safe_entities (entities (upsert_into b e))"
    unfolding upsert_into_eq by (simp add: json_safe_upserted)
  with Cons show ?case by simp
qed

lemma projectId_fold_upsert: "projectId (foldl upsert_into b es) = projectId b"
  by (induction es arbitrary: b) (simp_all add: projectId_upsert_into)

lemma json_safe_obj_replace:
  assumes "json_safe_entities es" and "list_all json_safe (evidence x)"
  shows "json_safe_entities (obj_replace k x es)"
  using assms set_obj_replace [of k x es] by (auto simp: json_safe_entities_def list_all_iff)

lemma json_safe_obj_delete: "json_safe_entities es \<Longrightarrow> json_safe_entities (obj_delete k es)"
  by (auto simp: json_safe_entities_def list_all_iff obj_delete_def)

lemma outcome_upsertEntity:
  "outcome (list_all json_safe (evidence e)) s pid (upsertEntity s pid e now)"
proof (cases "readable s pid")
  case True
  let ?b = "migrate (stored s pid) pid now"
  have "outcome (list_all json_safe (evidence e)) s pid
          (Inr (putBible (after_get s pid now) ((upsert_into ?b e)\<lparr>updatedAt := now\<rparr>) now))"
  proof (rule outcome.wrote)
    show "projectId ((upsert_into ?b e)\<lparr>updatedAt := now\<rparr>) = pid"
      by (simp add: projectId_upsert_into projectId_migrate)
    assume "list_all json_safe (evidence e)"
    with json_safe_loaded [of s pid now]
    have "json_safe_entities (entities (upsert_into ?b e))"
      unfolding upsert_into_eq by (simp add: json_safe_upserted)
    then show "json_safe_entities (take MAX_ENTITIES (entities ((upsert_into ?b e)\<lparr>updatedAt := now\<rparr>)))"
      by (simp add: json_safe_entities_take)
  qed
  then show ?thesis by (simp add: upsertEntity_readable [OF True])
next
  case False
  then show ?thesis by (simp add: upsertEntity_unreadable outcome.threw)
qed

lemma outcome_upsertEntities:
  "outcome (list_all (\<lambda>e. list_all json_safe (evidence e)) es) s pid (upsertEntities s pid es now)"
proof (cases "es = []")
  case True
  then show ?thesis by (simp add: upsertEntities_def outcome.kept)
next
  case ne: False
  show ?thesis
  proof (cases "readable s pid")
    case True
    let ?b = "migrate (stored s pid) pid now"
    have "outcome (list_all (\<lambda>e. list_all json_safe (evidence e)) es) s pid
            (Inr (putBible (after_get s pid now) ((foldl upsert_into ?b es)\<lparr>updatedAt := now\<rparr>) now))"
    proof (rule outcome.wrote)
      show "projectId ((foldl upsert_into ?b es)\<lparr>updatedAt := now\<rparr>) = pid"
        by (simp add: projectId_fold_upsert projectId_migrate)
      assume "list_all (\<lambda>e. list_all json_safe (evidence e)) es"
      then have "\<forall>e \<in> set es. list_all json_safe (evidence e)" by (simp add: list_all_iff)
      from json_safe_fold_upsert [OF json_safe_loaded this]
      show "json_safe_entities (take MAX_ENTITIES (entities ((foldl upsert_into ?b es)\<lparr>updatedAt := now\<rparr>)))"
        by (simp add: json_safe_entities_take)
    qed
    with ne show ?thesis by (simp add: upsertEntities_def getBible_readable [OF True] and_then_def)
  next
    case False
    with ne show ?thesis
      by (simp add: upsertEntities_def getBible_unreadable and_then_def outcome.threw)
  qed
qed

lemma outcome_addEvidence: "outcome (json_safe ev) s pid (addEvidence s pid i ev now)"
proof (cases "readable s pid")
  case True
  let ?b = "migrate (stored s pid) pid now"
  have safe: "json_safe_entities (entities ?b)" by (rule json_safe_loaded)
  show ?thesis
  proof (cases "js_read (entities ?b) i")
    case (Own cur)
    then have g: "obj_get (entities ?b) i = Some cur"
      by (simp add: js_read_def split: option.splits if_splits)
    let ?B = "?b\<lparr>entities := obj_replace i (cur\<lparr>evidence := dedupeEvidence (evidence cur @ [ev])\<rparr>)
                                 (entities ?b), updatedAt := now\<rparr>"
    have "outcome (json_safe ev) s pid (Inr (putBible (after_get s pid now) ?B now))"
    proof (rule outcome.wrote)
      show "projectId ?B = pid" by (simp add: projectId_migrate)
      assume "json_safe ev"
      with json_safe_obj_get [OF safe g]
      have "list_all json_safe (evidence (cur\<lparr>evidence := dedupeEvidence (evidence cur @ [ev])\<rparr>))"
        by (simp add: json_safe_dedupeEvidence)
      from json_safe_obj_replace [OF safe this]
      show "json_safe_entities (take MAX_ENTITIES (entities ?B))"
        by (simp add: json_safe_entities_take)
    qed
    with Own show ?thesis
      by (simp add: addEvidence_def getBible_readable [OF True] and_then_def Let_def)
  next
    case Inherited
    have "outcome (json_safe ev) s pid (Inr (putBible (after_get s pid now) (?b\<lparr>updatedAt := now\<rparr>) now))"
      by (rule outcome.wrote) (simp_all add: projectId_migrate safe json_safe_entities_take)
    with Inherited show ?thesis
      by (simp add: addEvidence_def getBible_readable [OF True] and_then_def Let_def)
  next
    case Missing
    then show ?thesis
      by (simp add: addEvidence_def getBible_readable [OF True] and_then_def Let_def outcome.loaded)
  qed
next
  case False
  then show ?thesis by (simp add: addEvidence_def getBible_unreadable and_then_def outcome.threw)
qed

lemma outcome_removeEntity: "outcome True s pid (removeEntity s pid i now)"
proof (cases "readable s pid")
  case True
  let ?b = "migrate (stored s pid) pid now"
  have safe: "json_safe_entities (entities ?b)" by (rule json_safe_loaded)
  have w: "outcome True s pid (Inr (putBible (after_get s pid now)
             (?b\<lparr>entities := obj_delete i (entities ?b), updatedAt := now\<rparr>) now))"
    by (rule outcome.wrote)
      (simp_all add: projectId_migrate json_safe_obj_delete [OF safe] json_safe_entities_take)
  show ?thesis
    by (cases "js_read (entities ?b) i")
      (simp_all add: removeEntity_def getBible_readable [OF True] and_then_def Let_def outcome.loaded w)
next
  case False
  then show ?thesis by (simp add: removeEntity_def getBible_unreadable and_then_def outcome.threw)
qed

text \<open>An operation that changes the threads or the style of the loaded aggregate.\<close>

lemma outcome_loaded_entities:
  assumes "entities b = entities (migrate (stored s0 pid) pid now)" and "projectId b = pid"
  shows "outcome True s pid (Inr (putBible (after_get s0 pid now) b now'))"
proof (rule outcome.wrote)
  show "projectId b = pid" by (rule assms(2))
  show "json_safe_entities (take MAX_ENTITIES (entities b))"
    unfolding assms(1) by (intro json_safe_entities_take json_safe_loaded)
qed

lemma outcome_upsertThread: "outcome True s pid (upsertThread s pid t now)"
proof (cases "readable s pid")
  case True
  show ?thesis
    by (cases "trim (name t) = []")
      (simp_all add: upsertThread_def getBible_readable [OF True] and_then_def Let_def
        outcome.loaded outcome_loaded_entities projectId_migrate)
next
  case False
  then show ?thesis by (simp add: upsertThread_def getBible_unreadable and_then_def outcome.threw)
qed

lemma outcome_closeThread: "outcome True s pid (closeThread s pid nm now)"
proof (cases "readable s pid")
  case True
  show ?thesis
    by (cases "findIndex (\<lambda>x. name x = nm) (threads (migrate (stored s pid) pid now))")
      (simp_all add: closeThread_def getBible_readable [OF True] and_then_def Let_def
        outcome.loaded outcome_loaded_entities projectId_migrate)
next
  case False
  then show ?thesis by (simp add: closeThread_def getBible_unreadable and_then_def outcome.threw)
qed

lemma outcome_removeThread: "outcome True s pid (removeThread s pid nm now)"
proof (cases "readable s pid")
  case True
  show ?thesis
    by (cases "findIndex (\<lambda>t. name t = nm) (threads (migrate (stored s pid) pid now))")
      (simp_all add: removeThread_def getBible_readable [OF True] and_then_def Let_def
        outcome.loaded outcome_loaded_entities projectId_migrate)
next
  case False
  then show ?thesis by (simp add: removeThread_def getBible_unreadable and_then_def outcome.threw)
qed

text \<open>An operation that returns leaves a project id that can be read.\<close>

lemma outcome_readable:
  assumes "outcome safe s pid r" and "readable s pid" and "r = Inr s'"
  shows "readable s' pid"
  using assms
proof (induction rule: outcome.induct)
  case (threw safe s pid)
  then show ?case by simp
next
  case (kept safe s pid)
  then show ?case by simp
next
  case (loaded safe s pid now)
  then show ?case by (auto simp: readable_after_get)
next
  case (wrote b pid safe s s0 now now')
  then show ?case by (auto simp: readable_put_after_get)
qed

lemma outcome_returns:
  assumes "readable s pid"
  shows "\<exists>s'. upsertThread s pid t now = Inr s'" and "\<exists>s'. upsertEntities s pid es now = Inr s'"
  by (simp_all add: upsertThread_def upsertEntities_def getBible_readable [OF assms] and_then_def Let_def)

lemma and_then_Inr: "and_then (Inr x) f = f x"
  by (simp add: and_then_def)

lemma and_then_Inl: "and_then (Inl e) f = Inl e"
  by (simp add: and_then_def)

lemma outcome_importBible: "outcome True s pid (importBible s pid inc now)"
proof (cases "readable s pid")
  case False
  then show ?thesis by (simp add: importBible_def getBible_unreadable and_then_def outcome.threw)
next
  case True
  let ?s1 = "after_get s pid now"
  let ?r2 = "case inc_entities inc of None \<Rightarrow> Inr ?s1
             | Some ents \<Rightarrow> upsertEntities ?s1 pid (map import_entity ents) now"
  have r1: "readable ?s1 pid" by (rule readable_after_get)
  obtain s2 where s2: "?r2 = Inr s2" and rd2: "readable s2 pid"
  proof (cases "inc_entities inc")
    case None
    with r1 that show ?thesis by simp
  next
    case (Some ents)
    from outcome_returns(2) [OF r1, of "map import_entity ents" now] obtain s2
      where u: "upsertEntities ?s1 pid (map import_entity ents) now = Inr s2" by blast
    from outcome_readable [OF outcome_upsertEntities r1 u] have "readable s2 pid" .
    with u Some that show ?thesis by simp
  qed
  have fold: "\<exists>s3. foldl (\<lambda>r t. and_then r (\<lambda>s'. upsertThread s' pid (import_thread t) now)) (Inr s2) ts
                = Inr s3 \<and> readable s3 pid" for ts
  proof (induction ts rule: rev_induct)
    case Nil
    with rd2 show ?case by simp
  next
    case (snoc t ts)
    then obtain s3 where f: "foldl (\<lambda>r t. and_then r (\<lambda>s'. upsertThread s' pid (import_thread t) now))
        (Inr s2) ts = Inr s3" and r3: "readable s3 pid" by blast
    from outcome_returns(1) [OF r3, of "import_thread t" now] obtain s4
      where u: "upsertThread s3 pid (import_thread t) now = Inr s4" by blast
    from outcome_readable [OF outcome_upsertThread r3 u] have "readable s4 pid" .
    with f u show ?case by (simp add: and_then_Inr)
  qed
  from fold [of "case inc_threads inc of None \<Rightarrow> [] | Some ts \<Rightarrow> ts"] obtain s3 where
    s3: "foldl (\<lambda>r t. and_then r (\<lambda>s'. upsertThread s' pid (import_thread t) now)) (Inr s2)
           (case inc_threads inc of None \<Rightarrow> [] | Some ts \<Rightarrow> ts) = Inr s3"
    and r3: "readable s3 pid" by blast
  let ?cur = "migrate (stored s3 pid) pid now"
  have "importBible s pid inc now
          = Inr (putBible (after_get s3 pid now)
                  (?cur\<lparr>style := merge_style (style ?cur) (inc_style inc)\<rparr>) now)"
  proof -
    have "importBible s pid inc now
            = and_then ?r2 (\<lambda>s2.
              and_then (foldl (\<lambda>r t. and_then r (\<lambda>s'. upsertThread s' pid (import_thread t) now)) (Inr s2)
                         (case inc_threads inc of None \<Rightarrow> [] | Some ts \<Rightarrow> ts)) (\<lambda>s3.
              and_then (getBible s3 pid now) (\<lambda>cs.
                Inr (putBible (snd cs) ((fst cs)\<lparr>style := merge_style (style (fst cs)) (inc_style inc)\<rparr>) now))))"
      unfolding importBible_def getBible_readable [OF True]
      by (simp add: and_then_Inr cong: option.case_cong)
    also have "\<dots> = Inr (putBible (after_get s3 pid now)
                  (?cur\<lparr>style := merge_style (style ?cur) (inc_style inc)\<rparr>) now)"
      unfolding s2 by (simp add: and_then_Inr s3 getBible_readable [OF r3])
    finally show ?thesis .
  qed
  moreover have "outcome True s pid (Inr (putBible (after_get s3 pid now)
                  (?cur\<lparr>style := merge_style (style ?cur) (inc_style inc)\<rparr>) now))"
    by (rule outcome_loaded_entities) (simp_all add: projectId_migrate)
  ultimately show ?thesis by simp
qed

subsection \<open>The read paths\<close>

lemma searchBible_readable:
  "readable s pid \<Longrightarrow> storage_after (searchBible lc f s pid q now) = Some (after_get s pid now)"
  by (simp add: searchBible_def getBible_readable and_then_Inr Let_def storage_after_def)

lemma getSnapshotForLLM_readable:
  "readable s pid \<Longrightarrow> storage_after (getSnapshotForLLM s pid opts now) = Some (after_get s pid now)"
  by (simp add: getSnapshotForLLM_def getBible_readable and_then_Inr Let_def storage_after_def)

lemma reads_unreadable:
  assumes "\<not> readable s pid"
  shows "searchBible lc f s pid q now = Inl TypeError"
    and "getSnapshotForLLM s pid opts now = Inl TypeError"
  by (simp_all add: searchBible_def getSnapshotForLLM_def getBible_unreadable [OF assms] and_then_Inl
      Let_def)

lemma after_get_stored: "stored s pid \<noteq> None \<Longrightarrow> after_get s pid now = s"
  by (auto simp: after_get_def)

lemma after_get_missing:
  "stored s pid = None \<Longrightarrow>
   after_get s pid now = saveAll (obj_set pid (migrate None pid now) (getAll s))"
  by (simp add: after_get_def)

lemma migrate_p1: "migrate None pid now
    = \<lparr>projectId = pid, updatedAt = now, schemaVersion = Some 1, entities = [], threads = [],
       style = empty_style\<rparr>"
  by (simp add: migrate_def SCHEMA_VERSION_def)

lemma after_get_empty: "after_get None ''p1'' now = Some [(''p1'', migrate None ''p1'' now)]"
  by (simp add: after_get_missing stored_empty getAll_def json_all_def saveAll_def obj_set_def
      obj_keys_def is_array_index_def is_digit_def json_migrate_None)

text \<open>
  Claim C9 as stated fails for a project that has no aggregate: the read creates it, and
  the storage, empty before the call, holds the fresh aggregate after it.
\<close>

theorem read_creates_aggregate_counterexample:
  "storage_after (searchBible ascii_toLowerCase keys_text None ''p1'' [] 3)
     = Some (Some [(''p1'', migrate None ''p1'' 3)])
   \<and> storage_after (getSnapshotForLLM None ''p1'' default_opts 3)
     = Some (Some [(''p1'', migrate None ''p1'' 3)])
   \<and> storage_after (searchBible ascii_toLowerCase keys_text None ''p1'' [] 3) \<noteq> Some None
   \<and> storage_after (getSnapshotForLLM None ''p1'' default_opts 3) \<noteq> Some None"
  by (simp add: searchBible_readable getSnapshotForLLM_readable readable_empty [OF p1_plain]
      after_get_empty)

text \<open>
  Claim C9, amended. For a project that has a stored aggregate, \<open>searchBible\<close> and
  \<open>getSnapshotForLLM\<close> leave the storage as it is, for every query and all options. For a
  project that has none and whose id is not the name of a property of
  \<^verbatim>\<open>Object.prototype\<close>, they store the fresh, empty aggregate under the project's id and
  change no other project. For a project that has none and whose id is such a name, they
  throw, and nothing is stored.
\<close>

theorem read_paths_storage:
  "(stored s pid \<noteq> None \<longrightarrow>
      storage_after (searchBible lc f s pid q now) = Some s
      \<and> storage_after (getSnapshotForLLM s pid opts now) = Some s)
   \<and> (stored s pid = None \<longrightarrow> pid \<notin> set object_prototype_names \<longrightarrow>
        storage_after (searchBible lc f s pid q now)
          = Some (saveAll (obj_set pid (migrate None pid now) (getAll s)))
        \<and> storage_after (getSnapshotForLLM s pid opts now)
          = Some (saveAll (obj_set pid (migrate None pid now) (getAll s)))
        \<and> stored (saveAll (obj_set pid (migrate None pid now) (getAll s))) pid
          = Some (migrate None pid now)
        \<and> (\<forall>p'. p' \<noteq> pid \<longrightarrow>
              stored (saveAll (obj_set pid (migrate None pid now) (getAll s))) p' = stored s p'))
   \<and> (stored s pid = None \<longrightarrow> pid \<in> set object_prototype_names \<longrightarrow>
        searchBible lc f s pid q now = Inl TypeError
        \<and> getSnapshotForLLM s pid opts now = Inl TypeError)"
proof -
  have 1: "stored s pid \<noteq> None \<longrightarrow>
      storage_after (searchBible lc f s pid q now) = Some s
      \<and> storage_after (getSnapshotForLLM s pid opts now) = Some s"
    by (simp add: searchBible_readable getSnapshotForLLM_readable readable_def after_get_stored)
  have 2: "stored s pid = None \<longrightarrow> pid \<notin> set object_prototype_names \<longrightarrow>
        storage_after (searchBible lc f s pid q now)
          = Some (saveAll (obj_set pid (migrate None pid now) (getAll s)))
        \<and> storage_after (getSnapshotForLLM s pid opts now)
          = Some (saveAll (obj_set pid (migrate None pid now) (getAll s)))
        \<and> stored (saveAll (obj_set pid (migrate None pid now) (getAll s))) pid
          = Some (migrate None pid now)
        \<and> (\<forall>p'. p' \<noteq> pid \<longrightarrow>
              stored (saveAll (obj_set pid (migrate None pid now) (getAll s))) p' = stored s p')"
    by (simp add: searchBible_readable getSnapshotForLLM_readable readable_def after_get_missing
        stored_saveAll_set json_migrate_None stored_getAll_json)
  have 3: "stored s pid = None \<longrightarrow> pid \<in> set object_prototype_names \<longrightarrow>
        searchBible lc f s pid q now = Inl TypeError
        \<and> getSnapshotForLLM s pid opts now = Inl TypeError"
    by (simp add: reads_unreadable readable_def)
  show ?thesis by (rule conjI [OF 1 conjI [OF 2 3]])
qed

lemma stored_future_store:
  "stored future_store ''p1'' = Some future_bible"
  "stored future_store ''p2'' = None"
  "stored future_store ''constructor'' = None"
  by (simp_all add: future_store_def future_bible_def stored_def getAll_def json_all_def
      json_bible_def json_empty_style obj_get_def)

theorem read_paths_storage_witness:
  "stored future_store ''p1'' \<noteq> None
   \<and> storage_after (searchBible ascii_toLowerCase keys_text future_store ''p1'' ''mercy'' 3)
       = Some future_store
   \<and> storage_after (getSnapshotForLLM future_store ''p1'' default_opts 3) = Some future_store
   \<and> stored future_store ''p2'' = None \<and> ''p2'' \<notin> set object_prototype_names
   \<and> storage_after (searchBible ascii_toLowerCase keys_text future_store ''p2'' ''mercy'' 3)
       = Some (saveAll (obj_set ''p2'' (migrate None ''p2'' 3) (getAll future_store)))
   \<and> stored (saveAll (obj_set ''p2'' (migrate None ''p2'' 3) (getAll future_store))) ''p1''
       = stored future_store ''p1''
   \<and> stored future_store ''constructor'' = None \<and> ''constructor'' \<in> set object_prototype_names
   \<and> searchBible ascii_toLowerCase keys_text future_store ''constructor'' ''mercy'' 3 = Inl TypeError
   \<and> getSnapshotForLLM future_store ''constructor'' default_opts 3 = Inl TypeError"
proof -
  have 1: "stored future_store ''p1'' \<noteq> None" and 2: "stored future_store ''p2'' = None"
    and 3: "stored future_store ''constructor'' = None"
    by (simp_all add: stored_future_store)
  have 4: "''p2'' \<notin> set object_prototype_names" and 5: "''constructor'' \<in> set object_prototype_names"
    by (simp_all add: object_prototype_names_def)
  note a = read_paths_storage [of future_store "''p1''" ascii_toLowerCase keys_text "''mercy''" 3 default_opts]
  note b = read_paths_storage [of future_store "''p2''" ascii_toLowerCase keys_text "''mercy''" 3 default_opts]
  note c = read_paths_storage [of future_store "''constructor''" ascii_toLowerCase keys_text "''mercy''" 3
      default_opts]
  from a 1 have a': "storage_after (searchBible ascii_toLowerCase keys_text future_store ''p1'' ''mercy'' 3)
       = Some future_store
       \<and> storage_after (getSnapshotForLLM future_store ''p1'' default_opts 3) = Some future_store"
    by blast
  from b 2 4 have b1: "storage_after (searchBible ascii_toLowerCase keys_text future_store ''p2'' ''mercy'' 3)
       = Some (saveAll (obj_set ''p2'' (migrate None ''p2'' 3) (getAll future_store)))" by blast
  from b 2 4 have "\<forall>p'. p' \<noteq> ''p2'' \<longrightarrow>
      stored (saveAll (obj_set ''p2'' (migrate None ''p2'' 3) (getAll future_store))) p'
        = stored future_store p'"
    by blast
  then have b2: "stored (saveAll (obj_set ''p2'' (migrate None ''p2'' 3) (getAll future_store))) ''p1''
       = stored future_store ''p1''" by simp
  from c 3 5 have c': "searchBible ascii_toLowerCase keys_text future_store ''constructor'' ''mercy'' 3
        = Inl TypeError
      \<and> getSnapshotForLLM future_store ''constructor'' default_opts 3 = Inl TypeError" by blast
  from 1 2 3 4 5 a' b1 b2 c' show ?thesis by blast
qed

subsection \<open>addEvidence\<close>

lemma threads_loaded_fixed:
  assumes "pruneBible b = b"
  shows "map prune_thread (drop (length (threads b) - MAX_THREADS) (threads b)) = threads b"
  using assms threads_pruneBible [of b] by simp

lemma json_bible_update:
  "json_bible (b\<lparr>updatedAt := t, schemaVersion := v\<rparr>) = (json_bible b)\<lparr>updatedAt := t, schemaVersion := v\<rparr>"
  by (simp add: json_bible_def)

text \<open>A loaded aggregate is written as it is, but for the time and the schema version.\<close>

lemma written_loaded:
  assumes "pruneBible b = b" and "json_bible b = b"
  shows "json_bible (pruneBible (b\<lparr>updatedAt := t, schemaVersion := v\<rparr>))
           = b\<lparr>updatedAt := t, schemaVersion := v\<rparr>"
  by (simp only: pruneBible_update_irrelevant json_bible_update assms)

lemma loaded_entity_fixed:
  assumes "pruneBible b = b" and "obj_get (entities b) k = Some cur"
  shows "dedupeEvidence (evidence cur) = evidence cur"
proof -
  from entities_loaded_fixed(1) [OF assms(1)]
  have "obj_get (map (\<lambda>kv. (fst kv, prune_entity (snd kv))) (entities b)) k = Some cur"
    using assms(2) by simp
  with assms(2) have "prune_entity cur = cur" by (simp add: obj_get_map_values)
  then have "evidence (prune_entity cur) = evidence cur" by simp
  then show ?thesis by (simp add: prune_entity_def)
qed

lemma getBible_Inr:
  assumes "getBible s pid now = Inr (b, s1)"
  shows "readable s pid" and "b = migrate (stored s pid) pid now" and "s1 = after_get s pid now"
proof -
  from assms show r: "readable s pid" using getBible_Inr_iff [of s pid now] by auto
  from assms getBible_readable [OF r, of now]
  show "b = migrate (stored s pid) pid now" and "s1 = after_get s pid now" by simp_all
qed

lemma addEvidence_own:
  assumes r: "readable s pid" and cur: "obj_get (entities (migrate (stored s pid) pid now)) i = Some cur"
  shows "\<exists>s' b'. addEvidence s pid i ev now = Inr s' \<and> stored s' pid = Some b'
           \<and> entities b' = obj_replace i
                 (cur\<lparr>evidence :=
                    (if length (evidence cur) < MAX_EVIDENCE_PER_ENTITY
                        \<and> evidence_key ev \<notin> set (map evidence_key (evidence cur))
                     then evidence cur @ [json_evidence ev] else evidence cur)\<rparr>)
                 (entities (migrate (stored s pid) pid now))
           \<and> threads b' = threads (migrate (stored s pid) pid now)"
proof -
  let ?b = "migrate (stored s pid) pid now"
  let ?pr = "\<lambda>kv::string \<times> Entity. (fst kv, prune_entity (snd kv))"
  let ?js = "\<lambda>kv::string \<times> Entity. (fst kv, json_entity (snd kv))"
  let ?cur' = "cur\<lparr>evidence := dedupeEvidence (evidence cur @ [ev])\<rparr>"
  let ?B = "?b\<lparr>entities := obj_replace i ?cur' (entities ?b), updatedAt := now\<rparr>"
  let ?W = "json_bible (pruneBible (?B\<lparr>updatedAt := now, schemaVersion := Some SCHEMA_VERSION\<rparr>))"
  have fx: "pruneBible ?b = ?b" by (rule pruneBible_migrate)
  have js: "json_bible ?b = ?b" by (rule json_migrate_stored)
  have safe: "json_safe_entities (entities ?b)" by (rule json_safe_loaded)
  from cur have rd: "js_read (entities ?b) i = Own cur" by (simp add: js_read_def)
  have a: "addEvidence s pid i ev now = Inr (putBible (after_get s pid now) ?B now)"
    by (simp add: addEvidence_def getBible_readable [OF r] and_then_Inr Let_def rd)
  have pid: "projectId ?B = pid" by (simp add: projectId_migrate)
  have st: "stored (putBible (after_get s pid now) ?B now) pid = Some ?W"
    by (rule stored_put_after_get [OF pid])
  from loaded_entity_fixed [OF fx cur]
  have fixed: "dedupeEvidence (evidence cur) = evidence cur" .
  then have "distinct (map evidence_key (evidence cur))"
    and "length (evidence cur) \<le> MAX_EVIDENCE_PER_ENTITY"
    using distinct_dedupeEvidence [of "evidence cur"] length_dedupeEvidence [of "evidence cur"]
    by simp_all
  then have new: "dedupeEvidence (evidence cur @ [ev])
      = (if length (evidence cur) < MAX_EVIDENCE_PER_ENTITY
            \<and> evidence_key ev \<notin> set (map evidence_key (evidence cur))
         then evidence cur @ [ev] else evidence cur)"
    by (rule dedupeEvidence_snoc)
  from json_safe_obj_get [OF safe cur] have "map json_evidence (evidence cur) = evidence cur"
    by (intro map_idI) (simp add: list_all_iff json_safe_def)
  then have jm: "map json_evidence (evidence cur @ [ev]) = evidence cur @ [json_evidence ev]" by simp
  have "prune_entity ?cur' = ?cur'" by (simp add: prune_entity_def dedupeEvidence_idem)
  moreover have "json_entity ?cur' = cur\<lparr>evidence := map json_evidence (dedupeEvidence (evidence cur @ [ev]))\<rparr>"
    by (simp add: json_entity_def)
  moreover note new jm \<open>map json_evidence (evidence cur) = evidence cur\<close>
  ultimately have jc: "json_entity (prune_entity ?cur')
      = cur\<lparr>evidence :=
            (if length (evidence cur) < MAX_EVIDENCE_PER_ENTITY
                \<and> evidence_key ev \<notin> set (map evidence_key (evidence cur))
             then evidence cur @ [json_evidence ev] else evidence cur)\<rparr>"
    by (simp split: if_splits)
  have len: "length (obj_replace i ?cur' (entities ?b)) \<le> MAX_ENTITIES"
    using entities_loaded_fixed(2) [OF fx] by (simp add: length_obj_replace)
  have "entities ?W = map ?js (map ?pr (obj_replace i ?cur' (entities ?b)))"
    using len by (simp add: entities_json_bible entities_pruneBible)
  also have "\<dots> = obj_replace i (json_entity (prune_entity ?cur')) (map ?js (map ?pr (entities ?b)))"
    by (simp only: obj_replace_map_values)
  also have "map ?js (map ?pr (entities ?b)) = entities ?b"
    by (simp only: entities_loaded_fixed(1) [OF fx] json_safe_entities_fixed [OF safe])
  finally have e: "entities ?W = obj_replace i (json_entity (prune_entity ?cur')) (entities ?b)" .
  have "threads ?W = map json_thread (threads ?b)"
    by (simp add: threads_json_bible threads_pruneBible threads_loaded_fixed [OF fx])
  also have "\<dots> = threads ?b"
    using js threads_json_bible [of ?b] by simp
  finally have t: "threads ?W = threads ?b" .
  from a st e t jc show ?thesis by simp
qed

lemma addEvidence_inherited:
  assumes r: "readable s pid"
    and rd: "js_read (entities (migrate (stored s pid) pid now)) i = Inherited"
  shows "\<exists>s'. addEvidence s pid i ev now = Inr s'
           \<and> stored s' pid = Some ((migrate (stored s pid) pid now)
                                  \<lparr>updatedAt := now, schemaVersion := Some SCHEMA_VERSION\<rparr>)"
proof -
  let ?b = "migrate (stored s pid) pid now"
  have a: "addEvidence s pid i ev now = Inr (putBible (after_get s pid now) (?b\<lparr>updatedAt := now\<rparr>) now)"
    by (simp add: addEvidence_def getBible_readable [OF r] and_then_Inr Let_def rd)
  have pid: "projectId (?b\<lparr>updatedAt := now\<rparr>) = pid" by (simp add: projectId_migrate)
  from stored_put_after_get [OF pid, of s now now]
  have "stored (putBible (after_get s pid now) (?b\<lparr>updatedAt := now\<rparr>) now) pid
          = Some (json_bible (pruneBible (?b\<lparr>updatedAt := now, schemaVersion := Some SCHEMA_VERSION\<rparr>)))"
    by simp
  also have "\<dots> = Some (?b\<lparr>updatedAt := now, schemaVersion := Some SCHEMA_VERSION\<rparr>)"
    by (simp only: written_loaded [OF pruneBible_migrate json_migrate_stored])
  finally show ?thesis using a by simp
qed

lemma loaded_of_pruned:
  assumes "stored s pid = Some b0" and "pruneBible b0 = b0"
  shows "entities (migrate (stored s pid) pid now) = entities b0"
    and "threads (migrate (stored s pid) pid now) = threads b0"
proof -
  have e: "entities (pruneBible b0) = entities b0" and t: "threads (pruneBible b0) = threads b0"
    using assms(2) by simp_all
  show "entities (migrate (stored s pid) pid now) = entities b0"
    using e by (simp add: assms(1) migrate_def Let_def entities_pruneBible)
  show "threads (migrate (stored s pid) pid now) = threads b0"
    using t by (simp add: assms(1) migrate_def Let_def threads_pruneBible)
qed

text \<open>
  Claim C10 as stated fails for a project that has no aggregate: no entity has the id, and
  yet the call writes, since \<open>getBible\<close> has stored the fresh aggregate before
  \<open>addEvidence\<close> returns.
\<close>

theorem addEvidence_writes_counterexample:
  "entity_of None ''p1'' ''Character:Nobody'' = None
   \<and> addEvidence None ''p1'' ''Character:Nobody'' other_quote 3
       = Inr (Some [(''p1'', migrate None ''p1'' 3)])
   \<and> addEvidence None ''p1'' ''Character:Nobody'' other_quote 3 \<noteq> Inr None"
proof -
  have "js_read (entities (migrate (stored None ''p1'') ''p1'' 3)) ''Character:Nobody'' = Missing"
    by (simp add: stored_empty migrate_p1 js_read_def obj_get_def object_prototype_names_def)
  then have "addEvidence None ''p1'' ''Character:Nobody'' other_quote 3 = Inr (after_get None ''p1'' 3)"
    by (simp add: addEvidence_def getBible_readable [OF readable_empty [OF p1_plain]] and_then_Inr
        Let_def)
  then show ?thesis by (simp add: after_get_empty entity_of_def stored_empty)
qed

text \<open>
  Claim C10, amended. \<open>addEvidence\<close> loads the aggregate with \<open>getBible\<close>; when that throws
  (the project has no aggregate and its id is the name of a property of
  \<^verbatim>\<open>Object.prototype\<close>), so does \<open>addEvidence\<close>. Otherwise it reads \<^verbatim>\<open>b.entities[id]\<close>.

  When the read finds nothing, nothing else happens: the storage is the one \<open>getBible\<close>
  leaves, which is the storage before the call for a project that has an aggregate (and
  holds the fresh aggregate for a project that had none).

  When the read finds an entity, the call stores it with the new entry appended, as JSON
  keeps it, unless the entity has \<open>MAX_EVIDENCE_PER_ENTITY\<close> entries already or one with
  the key of the new entry; every other entity, the order of the entities and all threads
  are those of the loaded aggregate.

  When the read finds an inherited value (the id is the name of a property of
  \<^verbatim>\<open>Object.prototype\<close> and no entity has it), the call writes too: it stores the loaded
  aggregate, with the time of the call.

  The entities and threads of the loaded aggregate are those of the stored one
  whenever that is an aggregate as the store writes it (one that \<open>pruneBible\<close> leaves as it
  is).
\<close>

theorem addEvidence_effect:
  "(getBible s pid now = Inl err \<longrightarrow> addEvidence s pid i ev now = Inl err)
   \<and> (getBible s pid now = Inr (b, s1) \<longrightarrow> js_read (entities b) i = Missing \<longrightarrow>
        addEvidence s pid i ev now = Inr s1 \<and> (stored s pid \<noteq> None \<longrightarrow> s1 = s))
   \<and> (getBible s pid now = Inr (b, s1) \<longrightarrow> js_read (entities b) i = Own cur \<longrightarrow>
        (\<exists>s' b'. addEvidence s pid i ev now = Inr s' \<and> stored s' pid = Some b'
           \<and> obj_get (entities b') i
               = Some (cur\<lparr>evidence :=
                    (if length (evidence cur) < MAX_EVIDENCE_PER_ENTITY
                        \<and> evidence_key ev \<notin> set (map evidence_key (evidence cur))
                     then evidence cur @ [json_evidence ev] else evidence cur)\<rparr>)
           \<and> (\<forall>k. k \<noteq> i \<longrightarrow> obj_get (entities b') k = obj_get (entities b) k)
           \<and> obj_keys (entities b') = obj_keys (entities b)
           \<and> threads b' = threads b))
   \<and> (getBible s pid now = Inr (b, s1) \<longrightarrow> js_read (entities b) i = Inherited \<longrightarrow>
        (\<exists>s'. addEvidence s pid i ev now = Inr s'
           \<and> stored s' pid = Some (b\<lparr>updatedAt := now, schemaVersion := Some SCHEMA_VERSION\<rparr>)))
   \<and> (getBible s pid now = Inr (b, s1) \<longrightarrow> stored s pid = Some b0 \<longrightarrow> pruneBible b0 = b0 \<longrightarrow>
        entities b = entities b0 \<and> threads b = threads b0)"
proof -
  have 1: "getBible s pid now = Inl err \<longrightarrow> addEvidence s pid i ev now = Inl err"
    by (simp add: addEvidence_def and_then_Inl)
  have 2: "getBible s pid now = Inr (b, s1) \<longrightarrow> js_read (entities b) i = Missing \<longrightarrow>
        addEvidence s pid i ev now = Inr s1 \<and> (stored s pid \<noteq> None \<longrightarrow> s1 = s)"
  proof (intro impI)
    assume g: "getBible s pid now = Inr (b, s1)" and m: "js_read (entities b) i = Missing"
    from getBible_Inr(3) [OF g] have "stored s pid \<noteq> None \<longrightarrow> s1 = s"
      by (simp add: after_get_stored)
    with g m show "addEvidence s pid i ev now = Inr s1 \<and> (stored s pid \<noteq> None \<longrightarrow> s1 = s)"
      by (simp add: addEvidence_def and_then_Inr Let_def)
  qed
  have 3: "getBible s pid now = Inr (b, s1) \<longrightarrow> js_read (entities b) i = Own cur \<longrightarrow>
        (\<exists>s' b'. addEvidence s pid i ev now = Inr s' \<and> stored s' pid = Some b'
           \<and> obj_get (entities b') i
               = Some (cur\<lparr>evidence :=
                    (if length (evidence cur) < MAX_EVIDENCE_PER_ENTITY
                        \<and> evidence_key ev \<notin> set (map evidence_key (evidence cur))
                     then evidence cur @ [json_evidence ev] else evidence cur)\<rparr>)
           \<and> (\<forall>k. k \<noteq> i \<longrightarrow> obj_get (entities b') k = obj_get (entities b) k)
           \<and> obj_keys (entities b') = obj_keys (entities b)
           \<and> threads b' = threads b)"
  proof (intro impI)
    assume g: "getBible s pid now = Inr (b, s1)" and o: "js_read (entities b) i = Own cur"
    note r = getBible_Inr(1) [OF g] and b = getBible_Inr(2) [OF g]
    from o have cur: "obj_get (entities (migrate (stored s pid) pid now)) i = Some cur"
      by (simp add: b js_read_def split: option.splits if_splits)
    then have mem: "i \<in> set (obj_keys (entities b))"
      using obj_get_None_iff [of "entities b" i] by (auto simp: b)
    from addEvidence_own [OF r cur, of ev] obtain s' b' where
      a: "addEvidence s pid i ev now = Inr s'" and st: "stored s' pid = Some b'"
      and e: "entities b' = obj_replace i
                 (cur\<lparr>evidence :=
                    (if length (evidence cur) < MAX_EVIDENCE_PER_ENTITY
                        \<and> evidence_key ev \<notin> set (map evidence_key (evidence cur))
                     then evidence cur @ [json_evidence ev] else evidence cur)\<rparr>)
                 (entities b)"
      and t: "threads b' = threads b"
      unfolding b by blast
    from a st e t mem
    show "\<exists>s' b'. addEvidence s pid i ev now = Inr s' \<and> stored s' pid = Some b'
           \<and> obj_get (entities b') i
               = Some (cur\<lparr>evidence :=
                    (if length (evidence cur) < MAX_EVIDENCE_PER_ENTITY
                        \<and> evidence_key ev \<notin> set (map evidence_key (evidence cur))
                     then evidence cur @ [json_evidence ev] else evidence cur)\<rparr>)
           \<and> (\<forall>k. k \<noteq> i \<longrightarrow> obj_get (entities b') k = obj_get (entities b) k)
           \<and> obj_keys (entities b') = obj_keys (entities b)
           \<and> threads b' = threads b"
      by (simp add: obj_get_replace obj_keys_replace)
  qed
  have 4: "getBible s pid now = Inr (b, s1) \<longrightarrow> js_read (entities b) i = Inherited \<longrightarrow>
        (\<exists>s'. addEvidence s pid i ev now = Inr s'
           \<and> stored s' pid = Some (b\<lparr>updatedAt := now, schemaVersion := Some SCHEMA_VERSION\<rparr>))"
  proof (intro impI)
    assume g: "getBible s pid now = Inr (b, s1)" and o: "js_read (entities b) i = Inherited"
    note r = getBible_Inr(1) [OF g] and b = getBible_Inr(2) [OF g]
    from addEvidence_inherited [OF r o [unfolded b], of ev]
    show "\<exists>s'. addEvidence s pid i ev now = Inr s'
           \<and> stored s' pid = Some (b\<lparr>updatedAt := now, schemaVersion := Some SCHEMA_VERSION\<rparr>)"
      unfolding b .
  qed
  have 5: "getBible s pid now = Inr (b, s1) \<longrightarrow> stored s pid = Some b0 \<longrightarrow> pruneBible b0 = b0 \<longrightarrow>
        entities b = entities b0 \<and> threads b = threads b0"
  proof (intro impI)
    assume g: "getBible s pid now = Inr (b, s1)" and "stored s pid = Some b0" "pruneBible b0 = b0"
    with loaded_of_pruned [of s pid b0 now] getBible_Inr(2) [OF g]
    show "entities b = entities b0 \<and> threads b = threads b0" by simp
  qed
  show ?thesis by (rule conjI [OF 1 conjI [OF 2 conjI [OF 3 conjI [OF 4 5]]]])
qed

lemma stored_mercy_store: "stored mercy_store ''p1'' = Some mercy_bible"
  by (simp add: mercy_store_def mercy_bible_def mercy_entity_def stored_def getAll_def json_all_def
      json_bible_def json_entity_def json_mercy_quote json_empty_style obj_get_def)

lemma migrate_mercy_bible: "migrate (Some mercy_bible) ''p1'' now = mercy_bible"
  by (simp add: migrate_def mercy_bible_def mercy_entity_def Let_def pruneBible_def prune_entity_def
      dedupe_mercy_quote MAX_ENTITIES_def MAX_THREADS_def)

lemma getBible_mercy_store: "getBible mercy_store ''p1'' now = Inr (mercy_bible, mercy_store)"
proof -
  have "readable mercy_store ''p1''" by (simp add: readable_def stored_mercy_store)
  from getBible_readable [OF this, of now] show ?thesis
    by (simp add: stored_mercy_store migrate_mercy_bible after_get_stored)
qed

lemma upsertEntity_mercy_store: "upsertEntity None ''p1'' mercy_first 1 = Inr mercy_store"
proof -
  have r: "readable None ''p1''" by (rule readable_empty [OF p1_plain])
  have "json_bible (pruneBible ((upsert_into (migrate None ''p1'' 1) mercy_first)
          \<lparr>updatedAt := 1, schemaVersion := Some SCHEMA_VERSION\<rparr>)) = mercy_bible"
    by (simp add: upsert_into_eq canonical_mercy_first migrate_p1 obj_get_def own_read_def
        obj_set_def obj_keys_def is_array_index_def is_digit_def merge_entity_def
        fields_mercy_first mergeAttrs_motivation_new dedupe_mercy_quote pruneBible_def
        prune_entity_def MAX_ENTITIES_def MAX_THREADS_def json_bible_def json_entity_def
        json_mercy_quote json_empty_style mercy_bible_def mercy_entity_def SCHEMA_VERSION_def)
  then show ?thesis
    by (simp add: upsertEntity_readable [OF r] stored_empty putBible_def after_get_empty
        getAll_def json_all_def json_migrate_None js_write_def obj_keys_def obj_set_def
        saveAll_def mercy_store_def mercy_bible_def mercy_entity_def json_bible_idem
        projectId_upsert_into projectId_migrate)
qed

theorem addEvidence_effect_witness:
  "getBible None ''constructor'' 2 = Inl TypeError
   \<and> addEvidence None ''constructor'' ''Character:Mercy'' other_quote 2 = Inl TypeError
   \<and> getBible mercy_store ''p1'' 2 = Inr (mercy_bible, mercy_store)
   \<and> js_read (entities mercy_bible) ''Character:Nobody'' = Missing
   \<and> stored mercy_store ''p1'' \<noteq> None
   \<and> addEvidence mercy_store ''p1'' ''Character:Nobody'' other_quote 2 = Inr mercy_store
   \<and> js_read (entities mercy_bible) ''Character:Mercy'' = Own mercy_entity
   \<and> map_option evidence
        (entity_in (addEvidence mercy_store ''p1'' ''Character:Mercy'' other_quote 2) ''p1''
           ''Character:Mercy'')
       = Some [mercy_quote, other_quote]
   \<and> js_read (entities mercy_bible) ''constructor'' = Inherited
   \<and> stored_in (addEvidence mercy_store ''p1'' ''constructor'' other_quote 2) ''p1''
       = Some (mercy_bible\<lparr>updatedAt := 2, schemaVersion := Some SCHEMA_VERSION\<rparr>)
   \<and> stored mercy_store ''p1'' = Some mercy_bible \<and> pruneBible mercy_bible = mercy_bible"
proof -
  have g0: "getBible None ''constructor'' 2 = Inl TypeError"
    by (simp add: getBible_unreadable readable_def stored_empty object_prototype_names_def)
  note g = getBible_mercy_store [of 2]
  have m: "js_read (entities mercy_bible) ''Character:Nobody'' = Missing"
    and o: "js_read (entities mercy_bible) ''Character:Mercy'' = Own mercy_entity"
    and i: "js_read (entities mercy_bible) ''constructor'' = Inherited"
    by (simp_all add: mercy_bible_def js_read_def obj_get_def object_prototype_names_def)
  have st: "stored mercy_store ''p1'' = Some mercy_bible" by (rule stored_mercy_store)
  then have ne: "stored mercy_store ''p1'' \<noteq> None" by simp
  have pr: "pruneBible mercy_bible = mercy_bible"
    using migrate_mercy_bible [of 0]
    by (simp add: migrate_def Let_def mercy_bible_def)
  note a = addEvidence_effect [of None "''constructor''" 2 TypeError "''Character:Mercy''" other_quote]
  note b = addEvidence_effect [where s = mercy_store and pid = "''p1''" and now = 2
      and b = mercy_bible and ?s1.0 = mercy_store and i = "''Character:Nobody''" and ev = other_quote]
  note c = addEvidence_effect [where s = mercy_store and pid = "''p1''" and now = 2
      and b = mercy_bible and ?s1.0 = mercy_store and i = "''Character:Mercy''" and ev = other_quote
      and cur = mercy_entity]
  note d = addEvidence_effect [where s = mercy_store and pid = "''p1''" and now = 2
      and b = mercy_bible and ?s1.0 = mercy_store and i = "''constructor''" and ev = other_quote]
  from a g0 have 1: "addEvidence None ''constructor'' ''Character:Mercy'' other_quote 2 = Inl TypeError"
    by blast
  from b g m ne have 2: "addEvidence mercy_store ''p1'' ''Character:Nobody'' other_quote 2 = Inr mercy_store"
    by blast
  have k: "evidence_key other_quote \<noteq> evidence_key mercy_quote"
    by (simp add: evidence_key_def other_quote_def mercy_quote_def)
  have j: "json_evidence other_quote = other_quote"
    by (simp add: json_evidence_def other_quote_def)
  from c g o obtain s' b' where
    a3: "addEvidence mercy_store ''p1'' ''Character:Mercy'' other_quote 2 = Inr s'"
    and s3: "stored s' ''p1'' = Some b'"
    and e3: "obj_get (entities b') ''Character:Mercy''
       = Some (mercy_entity\<lparr>evidence :=
            (if length (evidence mercy_entity) < MAX_EVIDENCE_PER_ENTITY
                \<and> evidence_key other_quote \<notin> set (map evidence_key (evidence mercy_entity))
             then evidence mercy_entity @ [json_evidence other_quote]
             else evidence mercy_entity)\<rparr>)"
    by blast
  from a3 s3 e3 have 3: "map_option evidence
        (entity_in (addEvidence mercy_store ''p1'' ''Character:Mercy'' other_quote 2) ''p1''
           ''Character:Mercy'')
       = Some [mercy_quote, other_quote]"
    using k j by (simp add: entity_in_def entity_of_def mercy_entity_def MAX_EVIDENCE_PER_ENTITY_def)
  from d g i obtain s'' where
    "addEvidence mercy_store ''p1'' ''constructor'' other_quote 2 = Inr s''"
    "stored s'' ''p1'' = Some (mercy_bible\<lparr>updatedAt := 2, schemaVersion := Some SCHEMA_VERSION\<rparr>)"
    by blast
  then have 4: "stored_in (addEvidence mercy_store ''p1'' ''constructor'' other_quote 2) ''p1''
       = Some (mercy_bible\<lparr>updatedAt := 2, schemaVersion := Some SCHEMA_VERSION\<rparr>)"
    by (simp add: stored_in_def)
  from g0 1 g m ne 2 o 3 i 4 st pr show ?thesis by blast
qed

subsection \<open>The schema version\<close>

lemma schemaVersion_written:
  "schemaVersion (json_bible (pruneBible (b\<lparr>updatedAt := t, schemaVersion := Some SCHEMA_VERSION\<rparr>)))
     = Some SCHEMA_VERSION"
  by (simp add: schemaVersion_json_bible schemaVersion_pruneBible)

lemma outcome_version:
  assumes "outcome safe s pid r"
  shows "version_written s r pid"
  using assms
proof (induction rule: outcome.induct)
  case (threw safe s pid)
  show ?case by (simp add: version_written_def)
next
  case (kept safe s pid)
  show ?case by (simp add: version_written_def)
next
  case (loaded safe s pid now)
  show ?case
    by (cases "stored s pid")
      (simp_all add: version_written_def stored_after_get migrate_def)
next
  case (wrote b pid safe s s0 now now')
  then show ?case
    by (simp add: version_written_def stored_put_after_get schemaVersion_written)
qed

lemma getBible_mono_version:
  assumes "stored s pid = Some b0"
  shows "\<exists>b. getBible s pid now = Inr (b, s)
           \<and> schemaVersion b = (case schemaVersion b0 of None \<Rightarrow> Some 1 | Some v \<Rightarrow> Some v)"
proof -
  from assms have r: "readable s pid" by (simp add: readable_def)
  have "schemaVersion (migrate (Some b0) pid now)
            = (case schemaVersion b0 of None \<Rightarrow> Some 1 | Some v \<Rightarrow> Some v)"
    by (cases "schemaVersion b0") (simp_all add: migrate_def Let_def schemaVersion_pruneBible)
  with assms show ?thesis by (simp add: getBible_readable [OF r] after_get_stored)
qed

lemma stored_clearBible: "stored (clearBible s pid) pid = None"
proof -
  have "pid \<notin> set (obj_keys (obj_delete pid (getAll s)))"
    by (auto simp: obj_keys_def obj_delete_def)
  then show ?thesis
    by (simp add: clearBible_def stored_def getAll_saveAll json_all_obj_delete json_all_getAll
        obj_get_None_iff)
qed

lemma future_bible_loaded: "getBible future_store ''p1'' now = Inr (future_bible, future_store)"
proof -
  have r: "readable future_store ''p1''" by (simp add: readable_def stored_future_store)
  have "migrate (Some future_bible) ''p1'' now = future_bible"
    by (simp add: migrate_def future_bible_def Let_def pruneBible_def MAX_ENTITIES_def MAX_THREADS_def)
  with getBible_readable [OF r, of now] show ?thesis
    by (simp add: stored_future_store after_get_stored)
qed

text \<open>
  Claim C5 as stated fails: the stored record has schema version 2; a load passes it
  through, but the write that ends \<open>upsertEntity\<close>, like every \<open>putBible\<close>, stores version 1.
\<close>

theorem schemaVersion_decreases_counterexample:
  "map_option schemaVersion (stored future_store ''p1'') = Some (Some 2)
   \<and> getBible future_store ''p1'' 1 = Inr (future_bible, future_store)
   \<and> schemaVersion future_bible = Some 2
   \<and> map_option schemaVersion (stored_in (upsertEntity future_store ''p1'' mercy_first 1) ''p1'')
       = Some (Some 1)"
proof -
  have r: "readable future_store ''p1''" by (simp add: readable_def stored_future_store)
  from upsertEntity_stored [OF r, of mercy_first 1] obtain s1 where
    "upsertEntity future_store ''p1'' mercy_first 1 = Inr s1"
    "map_option schemaVersion (stored s1 ''p1'') = Some (Some SCHEMA_VERSION)"
    by (auto simp: schemaVersion_written)
  then show ?thesis
    by (simp add: stored_future_store future_bible_loaded stored_in_def SCHEMA_VERSION_def,
        simp add: future_bible_def)
qed

text \<open>
  Claim C5, amended. A load keeps the schema version of the stored record, whatever it is
  (a record without one gets version 1), and writes nothing for a project that has a
  record. \<open>putBible\<close> stores \<open>SCHEMA_VERSION\<close> (under the project id \<^verbatim>\<open>__proto__\<close>, when no
  record has that name, it stores nothing at all), and \<open>upsertEntity\<close> stores
  \<open>SCHEMA_VERSION\<close> for every project id that can be read. Every operation of the store
  either throws and writes nothing, or leaves the project's stored aggregate as it was, or
  leaves one of version \<open>SCHEMA_VERSION\<close>; \<open>clearBible\<close> leaves none. So no operation
  lowers the version of a record whose version is at most \<open>SCHEMA_VERSION\<close>.
\<close>

theorem schemaVersion_load_and_write:
  "(stored s pid = Some b0 \<longrightarrow>
      (\<exists>b1. getBible s pid now = Inr (b1, s)
          \<and> schemaVersion b1 = (case schemaVersion b0 of None \<Rightarrow> Some 1 | Some v \<Rightarrow> Some v)))
   \<and> (projectId b \<noteq> ''__proto__'' \<or> stored s (projectId b) \<noteq> None \<longrightarrow>
        map_option schemaVersion (stored (putBible s b now) (projectId b)) = Some (Some SCHEMA_VERSION))
   \<and> (projectId b = ''__proto__'' \<longrightarrow> stored s ''__proto__'' = None \<longrightarrow>
        stored (putBible s b now) p = stored s p)
   \<and> (stored s pid \<noteq> None \<or> pid \<notin> set object_prototype_names \<longrightarrow>
        map_option schemaVersion (stored_in (upsertEntity s pid e now) pid) = Some (Some SCHEMA_VERSION))
   \<and> (getBible s pid now = Inr (b1, s1) \<longrightarrow> version_written s (Inr s1) pid)
   \<and> version_written s (Inr (putBible s b now)) (projectId b)
   \<and> version_written s (upsertEntity s pid e now) pid
   \<and> version_written s (upsertEntities s pid es now) pid
   \<and> version_written s (addEvidence s pid i ev now) pid
   \<and> version_written s (upsertThread s pid t now) pid
   \<and> version_written s (closeThread s pid nm now) pid
   \<and> version_written s (removeEntity s pid i now) pid
   \<and> version_written s (removeThread s pid nm now) pid
   \<and> version_written s (importBible s pid inc now) pid
   \<and> stored (clearBible s pid) pid = None
   \<and> (version_written s (Inr s') pid \<longrightarrow> stored s pid = Some b0 \<longrightarrow> schemaVersion b0 = Some v \<longrightarrow>
        v \<le> SCHEMA_VERSION \<longrightarrow>
        (\<exists>b' v'. stored s' pid = Some b' \<and> schemaVersion b' = Some v' \<and> v \<le> v'))"
proof -
  have 1: "stored s pid = Some b0 \<longrightarrow>
      (\<exists>b1. getBible s pid now = Inr (b1, s)
          \<and> schemaVersion b1 = (case schemaVersion b0 of None \<Rightarrow> Some 1 | Some v \<Rightarrow> Some v))"
    using getBible_mono_version [of s pid b0 now] by blast
  have 2: "projectId b \<noteq> ''__proto__'' \<or> stored s (projectId b) \<noteq> None \<longrightarrow>
        map_option schemaVersion (stored (putBible s b now) (projectId b)) = Some (Some SCHEMA_VERSION)"
    by (auto simp: stored_putBible schemaVersion_written)
  have 3: "projectId b = ''__proto__'' \<longrightarrow> stored s ''__proto__'' = None \<longrightarrow>
        stored (putBible s b now) p = stored s p"
    using stored_putBible_proto [of b s now p] by blast
  have 4: "stored s pid \<noteq> None \<or> pid \<notin> set object_prototype_names \<longrightarrow>
        map_option schemaVersion (stored_in (upsertEntity s pid e now) pid) = Some (Some SCHEMA_VERSION)"
  proof
    assume "stored s pid \<noteq> None \<or> pid \<notin> set object_prototype_names"
    then have r: "readable s pid" by (simp add: readable_def)
    from upsertEntity_stored [OF r, of e now]
    show "map_option schemaVersion (stored_in (upsertEntity s pid e now) pid) = Some (Some SCHEMA_VERSION)"
      by (auto simp: stored_in_def schemaVersion_written)
  qed
  have 5: "getBible s pid now = Inr (b1, s1) \<longrightarrow> version_written s (Inr s1) pid"
  proof
    assume g: "getBible s pid now = Inr (b1, s1)"
    from getBible_Inr(3) [OF g] outcome_version [OF outcome.loaded [of True s pid now]]
    show "version_written s (Inr s1) pid" by simp
  qed
  have 6: "version_written s (Inr (putBible s b now)) (projectId b)"
  proof (cases "projectId b \<noteq> ''__proto__'' \<or> stored s (projectId b) \<noteq> None")
    case True
    with 2 show ?thesis by (simp add: version_written_def)
  next
    case False
    with stored_putBible_proto [of b s now "projectId b"] show ?thesis
      by (simp add: version_written_def)
  qed
  note 7 = outcome_version [OF outcome_upsertEntity [of e s pid now]]
  note 8 = outcome_version [OF outcome_upsertEntities [of es s pid now]]
  note 9 = outcome_version [OF outcome_addEvidence [of ev s pid i now]]
  note 10 = outcome_version [OF outcome_upsertThread [of s pid t now]]
  note 11 = outcome_version [OF outcome_closeThread [of s pid nm now]]
  note 12 = outcome_version [OF outcome_removeEntity [of s pid i now]]
  note 13 = outcome_version [OF outcome_removeThread [of s pid nm now]]
  note 14 = outcome_version [OF outcome_importBible [of s pid inc now]]
  note 15 = stored_clearBible [of s pid]
  have 16: "version_written s (Inr s') pid \<longrightarrow> stored s pid = Some b0 \<longrightarrow> schemaVersion b0 = Some v \<longrightarrow>
        v \<le> SCHEMA_VERSION \<longrightarrow>
        (\<exists>b' v'. stored s' pid = Some b' \<and> schemaVersion b' = Some v' \<and> v \<le> v')"
    by (auto simp: version_written_def)
  show ?thesis
    by (rule conjI [OF 1 conjI [OF 2 conjI [OF 3 conjI [OF 4 conjI [OF 5 conjI [OF 6 conjI [OF 7
        conjI [OF 8 conjI [OF 9 conjI [OF 10 conjI [OF 11 conjI [OF 12 conjI [OF 13 conjI [OF 14
        conjI [OF 15 16]]]]]]]]]]]]]]])
qed

theorem schemaVersion_load_and_write_witness:
  "stored future_store ''p1'' = Some future_bible
   \<and> (\<exists>b1. getBible future_store ''p1'' 1 = Inr (b1, future_store) \<and> schemaVersion b1 = Some 2)
   \<and> projectId (migrate None ''p1'' 0) \<noteq> ''__proto__''
   \<and> map_option schemaVersion (stored (putBible None (migrate None ''p1'' 0) 0) ''p1'')
       = Some (Some SCHEMA_VERSION)
   \<and> projectId (migrate None ''__proto__'' 0) = ''__proto__'' \<and> stored None ''__proto__'' = None
   \<and> stored (putBible None (migrate None ''__proto__'' 0) 0) ''__proto__'' = None
   \<and> ''p1'' \<notin> set object_prototype_names
   \<and> map_option schemaVersion (stored_in (upsertEntity None ''p1'' mercy_first 1) ''p1'')
       = Some (Some SCHEMA_VERSION)
   \<and> getBible mercy_store ''p1'' 2 = Inr (mercy_bible, mercy_store)
   \<and> version_written mercy_store (Inr mercy_store) ''p1''
   \<and> stored mercy_store ''p1'' = Some mercy_bible \<and> schemaVersion mercy_bible = Some 1
   \<and> (1::int) \<le> SCHEMA_VERSION
   \<and> (\<exists>b' v'. stored mercy_store ''p1'' = Some b' \<and> schemaVersion b' = Some v' \<and> 1 \<le> v')"
proof -
  note f = schemaVersion_load_and_write [where s = future_store and pid = "''p1''" and ?b0.0 = future_bible
      and now = 1]
  note p = schemaVersion_load_and_write [where s = None and b = "migrate None ''p1'' 0" and now = 0]
  note q = schemaVersion_load_and_write [where s = None and b = "migrate None ''__proto__'' 0" and now = 0
      and p = "''__proto__''"]
  note u = schemaVersion_load_and_write [where s = None and pid = "''p1''" and e = mercy_first and now = 1]
  note m = schemaVersion_load_and_write [where s = mercy_store and pid = "''p1''" and now = 2
      and ?b1.0 = mercy_bible and ?s1.0 = mercy_store and s' = mercy_store and ?b0.0 = mercy_bible
      and v = 1]
  have 1: "stored future_store ''p1'' = Some future_bible" by (rule stored_future_store)
  have v2: "schemaVersion future_bible = Some 2" by (simp add: future_bible_def)
  from f 1 obtain b1 where "getBible future_store ''p1'' 1 = Inr (b1, future_store)"
    "schemaVersion b1 = (case schemaVersion future_bible of None \<Rightarrow> Some 1 | Some v \<Rightarrow> Some v)"
    by blast
  then have 2: "\<exists>b1. getBible future_store ''p1'' 1 = Inr (b1, future_store) \<and> schemaVersion b1 = Some 2"
    by (auto simp: v2)
  have 3: "projectId (migrate None ''p1'' 0) \<noteq> ''__proto__''"
    and pj: "projectId (migrate None ''p1'' 0) = ''p1''" by (simp_all add: projectId_migrate)
  from p 3 have "map_option schemaVersion
      (stored (putBible None (migrate None ''p1'' 0) 0) (projectId (migrate None ''p1'' 0)))
       = Some (Some SCHEMA_VERSION)" by blast
  then have 4: "map_option schemaVersion (stored (putBible None (migrate None ''p1'' 0) 0) ''p1'')
       = Some (Some SCHEMA_VERSION)" by (simp only: pj)
  have 5: "projectId (migrate None ''__proto__'' 0) = ''__proto__''" by (rule projectId_migrate)
  have 6: "stored None ''__proto__'' = None" by (rule stored_empty)
  from q 5 6 have "stored (putBible None (migrate None ''__proto__'' 0) 0) ''__proto__''
      = stored None ''__proto__''" by blast
  with 6 have 7: "stored (putBible None (migrate None ''__proto__'' 0) 0) ''__proto__'' = None" by simp
  note 8 = p1_plain
  from u 8 have 9: "map_option schemaVersion (stored_in (upsertEntity None ''p1'' mercy_first 1) ''p1'')
       = Some (Some SCHEMA_VERSION)" by blast
  note 10 = getBible_mercy_store [of 2]
  from m 10 have 11: "version_written mercy_store (Inr mercy_store) ''p1''" by blast
  note 12 = stored_mercy_store
  have 13: "schemaVersion mercy_bible = Some 1" by (simp add: mercy_bible_def)
  have 14: "(1::int) \<le> SCHEMA_VERSION" by (simp add: SCHEMA_VERSION_def)
  from m 11 12 13 14
  have 15: "\<exists>b' v'. stored mercy_store ''p1'' = Some b' \<and> schemaVersion b' = Some v' \<and> 1 \<le> v'"
    by blast
  from 1 2 3 4 5 6 7 8 9 10 11 12 13 14 15 show ?thesis by blast
qed

subsection \<open>The snapshot\<close>

lemma length_slice_to: "0 \<le> n \<Longrightarrow> length (slice_to n xs) \<le> nat n"
  by (simp add: slice_to_def)

lemma set_slice_to: "set (slice_to n xs) \<subseteq> set xs"
  by (auto simp: slice_to_def dest: in_set_takeD)

lemma length_slice_last: "length (slice_last n xs) \<le> n"
  by (simp add: slice_last_def)

lemma length_attrs_assign: "length (snd (attrs_assign k x out)) \<le> Suc (length (snd out))"
  by (simp add: attrs_assign_def length_obj_replace length_obj_set)

lemma keys_attrs_assign:
  "set (obj_keys (snd (attrs_assign k x out))) \<subseteq> insert k (set (obj_keys (snd out)))"
  by (auto simp: attrs_assign_def obj_keys_replace keys_obj_set)

lemma pick_fold_length:
  "length (snd (foldl (\<lambda>picked k. attrs_assign k (g k) picked) acc ks)) \<le> length (snd acc) + length ks"
proof (induction ks arbitrary: acc)
  case Nil
  then show ?case by simp
next
  case (Cons k ks)
  from Cons [of "attrs_assign k (g k) acc"] length_attrs_assign [of k "g k" acc]
  show ?case by simp
qed

lemma pick_fold_keys:
  "set (obj_keys (snd (foldl (\<lambda>picked k. attrs_assign k (g k) picked) acc ks)))
     \<subseteq> set (obj_keys (snd acc)) \<union> set ks"
proof (induction ks arbitrary: acc)
  case Nil
  then show ?case by simp
next
  case (Cons k ks)
  from Cons [of "attrs_assign k (g k) acc"] keys_attrs_assign [of k "g k" acc]
  show ?case by auto
qed

lemma length_pick_attrs: "0 \<le> n \<Longrightarrow> length (obj_keys (pick_attrs n a)) \<le> nat n"
proof -
  assume n: "0 \<le> n"
  have "length (pick_attrs n a) \<le> length (slice_to n (obj_keys a))"
    using pick_fold_length [of "\<lambda>k. case attrs_read (ObjectPrototype, a) k of None \<Rightarrow> Null | Some v \<Rightarrow> v"
        "(ObjectPrototype, [])" "slice_to n (obj_keys a)"]
    by (simp add: pick_attrs_def)
  also have "\<dots> \<le> nat n" using n by (rule length_slice_to)
  finally show ?thesis by (simp add: obj_keys_def)
qed

lemma keys_pick_attrs: "set (obj_keys (pick_attrs n a)) \<subseteq> set (obj_keys a)"
  using set_slice_to [of n "obj_keys a"]
    pick_fold_keys [of "\<lambda>k. case attrs_read (ObjectPrototype, a) k of None \<Rightarrow> Null | Some v \<Rightarrow> v"
        "(ObjectPrototype, [])" "slice_to n (obj_keys a)"]
  by (auto simp: pick_attrs_def obj_keys_def [of "[]"])

lemma getSnapshotForLLM_Inr:
  assumes "getSnapshotForLLM s pid opts now = Inr (r, s1)"
  shows "\<exists>b. getBible s pid now = Inr (b, s1)
           \<and> snap_entities r
               = map (\<lambda>e. \<lparr>se_id = ent_id e, se_type = ent_type e,
                            se_attrs = pick_attrs (snapshot_maxAttrs opts) (attrs e)\<rparr>)
                   (slice_to (snapshot_maxEntities opts)
                      (sort_key (\<lambda>e. - int (length (evidence e))) (obj_values (entities b))))
           \<and> snap_threads r = map snapshot_thread (slice_last 20 (threads b))"
proof (cases "getBible s pid now")
  case (Inl e)
  with assms show ?thesis by (simp add: getSnapshotForLLM_def and_then_Inl Let_def)
next
  case (Inr bs)
  with assms show ?thesis
    by (cases bs)
      (auto simp: getSnapshotForLLM_def and_then_Inr Let_def snapshot_maxAttrs_def
        snapshot_maxEntities_def snapshot_thread_def [abs_def])
qed

lemma slice_last_loaded:
  assumes "stored s pid = Some b0"
  shows "slice_last 20 (threads (migrate (stored s pid) pid now))
           = map prune_thread (slice_last 20 (threads b0))"
proof -
  have "threads (migrate (stored s pid) pid now)
          = map prune_thread (drop (length (threads b0) - MAX_THREADS) (threads b0))"
    using assms by (simp add: migrate_def Let_def threads_pruneBible)
  moreover have "length (threads b0) - (length (threads b0) - 500 + 20) + (length (threads b0) - 500)
      = length (threads b0) - 20" by arith
  ultimately show ?thesis
    by (simp add: slice_last_def drop_map MAX_THREADS_def)
qed

lemma stored_two_store: "stored two_store ''p1'' = Some two_bible"
  by (simp add: two_store_def two_bible_def mercy_entity_def paris_entity_def stored_def getAll_def
      json_all_def json_bible_def json_entity_def json_mercy_quote json_empty_style obj_get_def)

lemma getBible_two_store: "getBible two_store ''p1'' now = Inr (two_bible, two_store)"
proof -
  have r: "readable two_store ''p1''" by (simp add: readable_def stored_two_store)
  have "migrate (Some two_bible) ''p1'' now = two_bible"
    by (simp add: migrate_def two_bible_def mercy_entity_def paris_entity_def Let_def pruneBible_def
        prune_entity_def dedupe_mercy_quote dedupeEvidence_Nil MAX_ENTITIES_def MAX_THREADS_def)
  with getBible_readable [OF r, of now] show ?thesis
    by (simp add: stored_two_store after_get_stored)
qed

lemma upsert_all_two_store:
  "stored_in (upsert_all None ''p1'' [(mercy_first, 1), (paris_delta, 2)]) ''p1'' = Some two_bible"
proof -
  have r: "readable mercy_store ''p1''" by (simp add: readable_def stored_mercy_store)
  have "json_bible (pruneBible ((upsert_into mercy_bible paris_delta)
          \<lparr>updatedAt := 2, schemaVersion := Some SCHEMA_VERSION\<rparr>)) = two_bible"
    by (simp add: upsert_into_eq canonical_paris mercy_bible_def obj_get_def own_read_def
        obj_set_def obj_keys_def is_array_index_def is_digit_def merge_entity_def
        fields_paris mergeAttrs_Nil dedupeEvidence_Nil dedupe_mercy_quote pruneBible_def
        prune_entity_def MAX_ENTITIES_def MAX_THREADS_def json_bible_def json_entity_def
        json_mercy_quote json_empty_style two_bible_def mercy_entity_def paris_entity_def
        SCHEMA_VERSION_def)
  with upsertEntity_stored [OF r, of paris_delta 2] obtain s1 where
    "upsertEntity mercy_store ''p1'' paris_delta 2 = Inr s1" "stored s1 ''p1'' = Some two_bible"
    by (auto simp: stored_mercy_store migrate_mercy_bible)
  moreover have "upsert_all None ''p1'' [(mercy_first, 1), (paris_delta, 2)]
      = upsertEntity mercy_store ''p1'' paris_delta 2"
    by (simp only: upsert_all_def foldl.simps fst_conv snd_conv and_then_Inr upsertEntity_mercy_store)
  ultimately show ?thesis by (simp add: stored_in_def)
qed

text \<open>
  Claim C8 as stated fails for a negative bound: \<^verbatim>\<open>slice(0, -1)\<close> drops the last element
  only, so of two entities one is returned, more than the bound of minus one.
\<close>

theorem snapshot_negative_bound_counterexample:
  "snapshot_maxEntities negative_opts = - 1
   \<and> map_option snap_entities (result_of (getSnapshotForLLM two_store ''p1'' negative_opts 3))
       = Some [\<lparr>se_id = ''Character:Mercy'', se_type = ''Character'',
                 se_attrs = [(''motivation'', Str ''guilt'')]\<rparr>]
   \<and> \<not> int (length [\<lparr>se_id = ''Character:Mercy'', se_type = ''Character'',
                       se_attrs = [(''motivation'', Str ''guilt'')]\<rparr>])
         \<le> snapshot_maxEntities negative_opts"
  by (simp add: snapshot_maxEntities_def negative_opts_def getSnapshotForLLM_def
      getBible_two_store and_then_Inr result_of_def Let_def two_bible_def mercy_entity_def
      paris_entity_def obj_values_def slice_to_def slice_last_def pick_attrs_def obj_keys_def
      attrs_read_def obj_get_def attrs_assign_def obj_set_def is_array_index_def is_digit_def)

text \<open>
  Claim C8, amended. For every aggregate and all options whose two bounds (after the
  defaults 60 and 6) are not negative, the snapshot has at most \<open>maxEntities\<close> entities;
  each of them is the id, the type and at most \<open>maxAttrsPerEntity\<close> attributes of one
  entity of the aggregate, with keys of that entity, and nothing else (the record of a
  snapshot entity has no evidence). The threads are the last 20 threads of the aggregate,
  each with its name, status, notes and at most its first 6 hooks. The call returns a
  snapshot for every project that has an aggregate and for every project id that is not
  the name of a property of \<^verbatim>\<open>Object.prototype\<close>.
\<close>

theorem getSnapshotForLLM_bounds:
  assumes "0 \<le> snapshot_maxEntities opts" and "0 \<le> snapshot_maxAttrs opts"
  shows "(stored s pid \<noteq> None \<or> pid \<notin> set object_prototype_names \<longrightarrow>
            (\<exists>r s1. getSnapshotForLLM s pid opts now = Inr (r, s1)))
     \<and> (\<forall>r s1. getSnapshotForLLM s pid opts now = Inr (r, s1) \<longrightarrow>
          (\<exists>b. getBible s pid now = Inr (b, s1)
             \<and> length (snap_entities r) \<le> nat (snapshot_maxEntities opts)
             \<and> (\<forall>x \<in> set (snap_entities r).
                   length (obj_keys (se_attrs x)) \<le> nat (snapshot_maxAttrs opts)
                   \<and> (\<exists>e \<in> set (obj_values (entities b)).
                         se_id x = ent_id e \<and> se_type x = ent_type e
                         \<and> set (obj_keys (se_attrs x)) \<subseteq> set (obj_keys (attrs e))))
             \<and> snap_threads r = map snapshot_thread (slice_last 20 (threads b))
             \<and> length (snap_threads r) \<le> 20
             \<and> (\<forall>t \<in> set (snap_threads r). length (st_hooks t) \<le> 6)
             \<and> (\<forall>b0. stored s pid = Some b0 \<longrightarrow>
                   map st_name (snap_threads r) = map name (slice_last 20 (threads b0)))))"
proof (intro conjI impI allI)
  assume "stored s pid \<noteq> None \<or> pid \<notin> set object_prototype_names"
  then have "readable s pid" by (simp add: readable_def)
  then show "\<exists>r s1. getSnapshotForLLM s pid opts now = Inr (r, s1)"
    by (simp add: getSnapshotForLLM_def getBible_readable and_then_Inr Let_def)
next
  fix r s1
  assume a: "getSnapshotForLLM s pid opts now = Inr (r, s1)"
  from getSnapshotForLLM_Inr [OF a] obtain b where g: "getBible s pid now = Inr (b, s1)"
    and se: "snap_entities r
               = map (\<lambda>e. \<lparr>se_id = ent_id e, se_type = ent_type e,
                            se_attrs = pick_attrs (snapshot_maxAttrs opts) (attrs e)\<rparr>)
                   (slice_to (snapshot_maxEntities opts)
                      (sort_key (\<lambda>e. - int (length (evidence e))) (obj_values (entities b))))"
    and st: "snap_threads r = map snapshot_thread (slice_last 20 (threads b))"
    by blast
  let ?vals = "obj_values (entities b)"
  let ?sorted = "sort_key (\<lambda>e. - int (length (evidence e))) ?vals"
  have 1: "length (snap_entities r) \<le> nat (snapshot_maxEntities opts)"
    using length_slice_to [OF assms(1)] by (simp add: se)
  have 2: "\<forall>x \<in> set (snap_entities r).
           length (obj_keys (se_attrs x)) \<le> nat (snapshot_maxAttrs opts)
           \<and> (\<exists>e \<in> set ?vals. se_id x = ent_id e \<and> se_type x = ent_type e
                 \<and> set (obj_keys (se_attrs x)) \<subseteq> set (obj_keys (attrs e)))"
  proof
    fix x assume "x \<in> set (snap_entities r)"
    then obtain e where e: "e \<in> set (slice_to (snapshot_maxEntities opts) ?sorted)"
      and x: "x = \<lparr>se_id = ent_id e, se_type = ent_type e,
                    se_attrs = pick_attrs (snapshot_maxAttrs opts) (attrs e)\<rparr>"
      by (auto simp: se)
    from e set_slice_to [of "snapshot_maxEntities opts" ?sorted] have "e \<in> set ?sorted" by blast
    then have "e \<in> set ?vals" by simp
    with x length_pick_attrs [OF assms(2), of "attrs e"] keys_pick_attrs [of "snapshot_maxAttrs opts" "attrs e"]
    show "length (obj_keys (se_attrs x)) \<le> nat (snapshot_maxAttrs opts)
           \<and> (\<exists>e \<in> set ?vals. se_id x = ent_id e \<and> se_type x = ent_type e
                 \<and> set (obj_keys (se_attrs x)) \<subseteq> set (obj_keys (attrs e)))"
      by auto
  qed
  have 4: "length (snap_threads r) \<le> 20"
    by (simp add: st length_slice_last)
  have 5: "\<forall>t \<in> set (snap_threads r). length (st_hooks t) \<le> 6"
    by (auto simp: st snapshot_thread_def slice_to_def)
  have 6: "\<forall>b0. stored s pid = Some b0 \<longrightarrow>
           map st_name (snap_threads r) = map name (slice_last 20 (threads b0))"
  proof (intro allI impI)
    fix b0 assume b0: "stored s pid = Some b0"
    from slice_last_loaded [OF b0, of now] getBible_Inr(2) [OF g]
    have "slice_last 20 (threads b) = map prune_thread (slice_last 20 (threads b0))" by simp
    then show "map st_name (snap_threads r) = map name (slice_last 20 (threads b0))"
      by (simp add: st snapshot_thread_def o_def prune_thread_def)
  qed
  from g 1 2 st 4 5 6
  show "\<exists>b. getBible s pid now = Inr (b, s1)
             \<and> length (snap_entities r) \<le> nat (snapshot_maxEntities opts)
             \<and> (\<forall>x \<in> set (snap_entities r).
                   length (obj_keys (se_attrs x)) \<le> nat (snapshot_maxAttrs opts)
                   \<and> (\<exists>e \<in> set (obj_values (entities b)).
                         se_id x = ent_id e \<and> se_type x = ent_type e
                         \<and> set (obj_keys (se_attrs x)) \<subseteq> set (obj_keys (attrs e))))
             \<and> snap_threads r = map snapshot_thread (slice_last 20 (threads b))
             \<and> length (snap_threads r) \<le> 20
             \<and> (\<forall>t \<in> set (snap_threads r). length (st_hooks t) \<le> 6)
             \<and> (\<forall>b0. stored s pid = Some b0 \<longrightarrow>
                   map st_name (snap_threads r) = map name (slice_last 20 (threads b0)))"
    by blast
qed

theorem getSnapshotForLLM_bounds_witness:
  "0 \<le> snapshot_maxEntities default_opts \<and> 0 \<le> snapshot_maxAttrs default_opts
   \<and> nat (snapshot_maxEntities default_opts) = 60
   \<and> stored two_store ''p1'' \<noteq> None
   \<and> (\<exists>r s1. getSnapshotForLLM two_store ''p1'' default_opts 3 = Inr (r, s1)
         \<and> length (snap_entities r) \<le> 60 \<and> length (snap_threads r) \<le> 20)
   \<and> map_option snap_entities (result_of (getSnapshotForLLM two_store ''p1'' default_opts 3))
       = Some [\<lparr>se_id = ''Character:Mercy'', se_type = ''Character'',
                 se_attrs = [(''motivation'', Str ''guilt'')]\<rparr>,
               \<lparr>se_id = ''Location:Paris'', se_type = ''Character'', se_attrs = []\<rparr>]"
proof -
  have h: "0 \<le> snapshot_maxEntities default_opts" "0 \<le> snapshot_maxAttrs default_opts"
    and n: "nat (snapshot_maxEntities default_opts) = 60"
    by (simp_all add: snapshot_maxEntities_def snapshot_maxAttrs_def default_opts_def)
  have st: "stored two_store ''p1'' \<noteq> None" by (simp add: stored_two_store)
  have ids: "map_option snap_entities (result_of (getSnapshotForLLM two_store ''p1'' default_opts 3))
       = Some [\<lparr>se_id = ''Character:Mercy'', se_type = ''Character'',
                 se_attrs = [(''motivation'', Str ''guilt'')]\<rparr>,
               \<lparr>se_id = ''Location:Paris'', se_type = ''Character'', se_attrs = []\<rparr>]"
    by (simp add: default_opts_def getSnapshotForLLM_def
      getBible_two_store and_then_Inr result_of_def Let_def two_bible_def mercy_entity_def
      paris_entity_def obj_values_def slice_to_def slice_last_def pick_attrs_def obj_keys_def
      attrs_read_def obj_get_def attrs_assign_def obj_set_def is_array_index_def is_digit_def)
  note t = getSnapshotForLLM_bounds [OF h, of two_store "''p1''" 3]
  from t st obtain r s1 where a: "getSnapshotForLLM two_store ''p1'' default_opts 3 = Inr (r, s1)"
    by blast
  from t a have "length (snap_entities r) \<le> nat (snapshot_maxEntities default_opts)"
    and b: "length (snap_threads r) \<le> 20" by blast+
  with n a have "\<exists>r s1. getSnapshotForLLM two_store ''p1'' default_opts 3 = Inr (r, s1)
         \<and> length (snap_entities r) \<le> 60 \<and> length (snap_threads r) \<le> 20"
    by auto
  with h n st ids show ?thesis by blast
qed

subsection \<open>Quotas\<close>









lemma entities_update_irrelevant:
  "entities (b\<lparr>updatedAt := t, schemaVersion := v\<rparr>) = entities b"
  by simp



subsection \<open>The cap on the entities\<close>

lemma keys_take: "set (obj_keys (take n obj)) \<subseteq> set (obj_keys obj)"
  using set_take_subset [of n "map fst obj"] by (simp add: obj_keys_def take_map)













end
